theory Spec2Isabelle
  imports Complex_Main
begin

section \<open>Floating-point values as numpy hands them out\<close>

text \<open>
  A finite float is idealised as a real number (no rounding, no overflow, no signed
  zero). What is kept of IEEE-754 are the three special values that numpy's arithmetic
  produces instead of raising: dividing by zero gives an infinity or NaN (with a
  RuntimeWarning only), and NaN propagates through every later operation. The rounding
  of double precision is modelled apart, further down, for the scorer.
\<close>

datatype np_float = Finite real | PosInf | NegInf | NaN

fun np_neg :: "np_float \<Rightarrow> np_float" where
  "np_neg (Finite a) = Finite (- a)"
| "np_neg PosInf = NegInf"
| "np_neg NegInf = PosInf"
| "np_neg NaN = NaN"

fun np_add :: "np_float \<Rightarrow> np_float \<Rightarrow> np_float" where
  "np_add (Finite a) (Finite b) = Finite (a + b)"
| "np_add NaN y = NaN"
| "np_add x NaN = NaN"
| "np_add PosInf NegInf = NaN"
| "np_add NegInf PosInf = NaN"
| "np_add PosInf y = PosInf"
| "np_add NegInf y = NegInf"
| "np_add (Finite a) y = y"

definition np_sub :: "np_float \<Rightarrow> np_float \<Rightarrow> np_float" where
  "np_sub x y = np_add x (np_neg y)"

text \<open>An infinity multiplied by a finite factor: the sign of the factor decides, and
  a zero factor gives NaN.\<close>

definition inf_times :: "np_float \<Rightarrow> real \<Rightarrow> np_float" where
  "inf_times i a = (if a = 0 then NaN else if 0 < a then i else np_neg i)"

fun np_mul :: "np_float \<Rightarrow> np_float \<Rightarrow> np_float" where
  "np_mul (Finite a) (Finite b) = Finite (a * b)"
| "np_mul NaN y = NaN"
| "np_mul x NaN = NaN"
| "np_mul (Finite a) y = inf_times y a"
| "np_mul x (Finite b) = inf_times x b"
| "np_mul PosInf y = y"
| "np_mul NegInf y = np_neg y"

fun np_div :: "np_float \<Rightarrow> np_float \<Rightarrow> np_float" where
  "np_div (Finite a) (Finite b) =
     (if b \<noteq> 0 then Finite (a / b)
      else if a = 0 then NaN
      else if 0 < a then PosInf
      else NegInf)"
| "np_div NaN y = NaN"
| "np_div x NaN = NaN"
| "np_div (Finite a) y = Finite 0"
| "np_div x (Finite b) = (if 0 \<le> b then x else np_neg x)"
| "np_div x y = NaN"

fun np_exp :: "np_float \<Rightarrow> np_float" where
  "np_exp (Finite a) = Finite (exp a)"
| "np_exp PosInf = PosInf"
| "np_exp NegInf = Finite 0"
| "np_exp NaN = NaN"

text \<open>\<^verbatim>\<open>np.clip(x, lo, hi)\<close> is \<^verbatim>\<open>minimum(maximum(x, lo), hi)\<close>: an infinity is
  clipped to the bound, NaN stays NaN.\<close>

fun np_clip :: "np_float \<Rightarrow> real \<Rightarrow> real \<Rightarrow> np_float" where
  "np_clip (Finite a) lo hi = Finite (min (max a lo) hi)"
| "np_clip PosInf lo hi = Finite hi"
| "np_clip NegInf lo hi = Finite (min lo hi)"
| "np_clip NaN lo hi = NaN"

text \<open>Python's slice \<^verbatim>\<open>xs[i:]\<close>: a negative start counts from the end and is clamped
  at the front of the list, so \<^verbatim>\<open>xs[-k:]\<close> is the last \<open>k\<close> elements (all of them when
  there are fewer) and \<^verbatim>\<open>xs[-0:]\<close> is the whole list.\<close>

definition py_slice_from :: "int \<Rightarrow> 'a list \<Rightarrow> 'a list" where
  "py_slice_from i xs =
     (if i < 0 then drop (nat (int (length xs) + i)) xs else drop (nat i) xs)"

text \<open>\<^verbatim>\<open>np.mean\<close>: the arithmetic mean; NaN on an empty array.\<close>

definition np_mean :: "real list \<Rightarrow> np_float" where
  "np_mean xs = (if xs = [] then NaN else Finite (sum_list xs / real (length xs)))"

text \<open>\<^verbatim>\<open>np.percentile(xs, 90)\<close> with the default linear interpolation: on the sorted
  data, the virtual index is \<open>0.9 * (n - 1)\<close>; the result interpolates between the
  elements at its floor and at the next index (clamped to the last one).\<close>

definition np_percentile90 :: "real list \<Rightarrow> np_float" where
  "np_percentile90 xs =
     (if xs = [] then NaN
      else let s = sort xs;
               n = length xs;
               j = (9 * (n - 1)) div 10;
               g = real ((9 * (n - 1)) mod 10) / 10;
               lo = s ! j;
               hi = s ! (min (j + 1) (n - 1))
           in Finite (lo + (hi - lo) * g))"

text \<open>\<^verbatim>\<open>np.diff\<close>: the differences of consecutive elements.\<close>

fun np_diff :: "real list \<Rightarrow> real list" where
  "np_diff (x # y # xs) = (y - x) # np_diff (y # xs)"
| "np_diff xs = []"

section \<open>The fatigue-risk estimator\<close>

definition SPRINT_SPEED :: real where "SPRINT_SPEED = 7"
definition ACCEL_THRESHOLD :: real where "ACCEL_THRESHOLD = 2"
definition WINDOW_SEC :: nat where "WINDOW_SEC = 30"

datatype metric = Speed_drop | Sprint_count | Accel_events | Posture_deg | Stride_reduction

text \<open>The weight table, in the order of the dictionary literal (the order the score
  is summed in).\<close>

definition METRIC_WEIGHTS :: "(metric \<times> real) list" where
  "METRIC_WEIGHTS =
     [(Speed_drop, 0.30), (Sprint_count, 0.25), (Accel_events, 0.15),
      (Posture_deg, 0.20), (Stride_reduction, 0.10)]"

text \<open>\<^verbatim>\<open>score = sum(metrics[k] * METRIC_WEIGHTS[k] for k in METRIC_WEIGHTS)\<close>, Python's
  \<^verbatim>\<open>sum\<close> starting from 0 and adding from the left.\<close>

definition weighted_score :: "(metric \<Rightarrow> np_float) \<Rightarrow> np_float" where
  "weighted_score metrics =
     foldl np_add (Finite 0) (map (\<lambda>(k, w). np_mul (metrics k) (Finite w)) METRIC_WEIGHTS)"

text \<open>\<^verbatim>\<open>risk_pct = 100 / (1 + np.exp(-10*(score-0.5)))\<close>\<close>

definition logistic_risk :: "np_float \<Rightarrow> np_float" where
  "logistic_risk score =
     np_div (Finite 100)
       (np_add (Finite 1) (np_exp (np_mul (Finite (- 10)) (np_sub score (Finite 0.5)))))"

text \<open>The sub-metrics of a history of at least five samples, as the dictionary
  \<^verbatim>\<open>metrics\<close> of \<^verbatim>\<open>_compute_fatigue\<close>. \<^verbatim>\<open>-self.window//2\<close> parses as
  \<^verbatim>\<open>(-self.window)//2\<close>, a floor division.\<close>

definition speed_drop_metric :: "nat \<Rightarrow> real list \<Rightarrow> np_float" where
  "speed_drop_metric window speeds =
     (let baseline = np_percentile90 speeds;
          recent = np_mean (py_slice_from ((- int window) div 2) speeds)
      in np_clip (np_div (np_sub baseline recent) baseline) 0 1)"

definition sprint_norm :: "real list \<Rightarrow> np_float" where
  "sprint_norm speeds =
     (let sprint_count = length (filter (\<lambda>s. s > SPRINT_SPEED) speeds)
      in np_clip (Finite (real sprint_count / (real WINDOW_SEC / 10))) 0 1)"

definition accel_norm :: "nat \<Rightarrow> real list \<Rightarrow> np_float" where
  "accel_norm fps speeds =
     (let accel = map (\<lambda>d. d * real fps) (np_diff speeds);
          accel_events = length (filter (\<lambda>a. a > ACCEL_THRESHOLD) accel)
      in np_clip (Finite (real accel_events / (real WINDOW_SEC / 5))) 0 1)"

fun fatigue_metrics :: "nat \<Rightarrow> nat \<Rightarrow> real list \<Rightarrow> metric \<Rightarrow> np_float" where
  "fatigue_metrics fps window speeds Speed_drop = speed_drop_metric window speeds"
| "fatigue_metrics fps window speeds Sprint_count = sprint_norm speeds"
| "fatigue_metrics fps window speeds Accel_events = accel_norm fps speeds"
| "fatigue_metrics fps window speeds Posture_deg = Finite 0"
| "fatigue_metrics fps window speeds Stride_reduction = Finite 0"

text \<open>\<^verbatim>\<open>_compute_fatigue\<close> on the history it reads for the entity.\<close>

definition fatigue_of_speeds :: "nat \<Rightarrow> nat \<Rightarrow> real list \<Rightarrow> np_float" where
  "fatigue_of_speeds fps window speeds =
     (if length speeds < 5 then Finite 0
      else logistic_risk (weighted_score (fatigue_metrics fps window speeds)))"

text \<open>
  The estimator object. \<^verbatim>\<open>history\<close> is a \<^verbatim>\<open>defaultdict(list)\<close> whose keys are never
  enumerated: a total function with \<open>[]\<close> for an entity never written. \<^verbatim>\<open>risk\<close> is a
  \<^verbatim>\<open>defaultdict(float)\<close> whose keys the summary enumerates in insertion order: an
  association list, where reading a missing key inserts \<open>0.0\<close> at the end. The frame
  rate is a natural number; \<^verbatim>\<open>__init__\<close> sets the window to \<^verbatim>\<open>WINDOW_SEC * fps\<close>.
\<close>

type_synonym pid = int

record estimator =
  fps :: nat
  window :: nat
  history :: "pid \<Rightarrow> real list"
  risk :: "(pid \<times> np_float) list"

definition init_estimator :: "nat \<Rightarrow> estimator" where
  "init_estimator f =
     \<lparr>fps = f, window = WINDOW_SEC * f, history = (\<lambda>_. []), risk = []\<rparr>"

definition compute_fatigue :: "estimator \<Rightarrow> pid \<Rightarrow> np_float" where
  "compute_fatigue est p = fatigue_of_speeds (fps est) (window est) (history est p)"

text \<open>Python dictionaries keep insertion order: storing under a key that exists keeps
  its place, a new key goes to the end.\<close>

fun dict_set :: "'k \<Rightarrow> 'v \<Rightarrow> ('k \<times> 'v) list \<Rightarrow> ('k \<times> 'v) list" where
  "dict_set k v [] = [(k, v)]"
| "dict_set k v ((k', v') # d) = (if k = k' then (k, v) # d else (k', v') # dict_set k v d)"

text \<open>Reading \<^verbatim>\<open>self.risk[pid]\<close>: the value read and the dictionary afterwards.\<close>

definition risk_get :: "(pid \<times> np_float) list \<Rightarrow> pid \<Rightarrow> np_float \<times> (pid \<times> np_float) list" where
  "risk_get d p =
     (case map_of d p of Some r \<Rightarrow> (r, d) | None \<Rightarrow> (Finite 0, d @ [(p, Finite 0)]))"

text \<open>The Risk Value stored for an entity: what a read of \<^verbatim>\<open>self.risk[pid]\<close> yields.\<close>

definition stored_risk :: "estimator \<Rightarrow> pid \<Rightarrow> np_float" where
  "stored_risk est p = fst (risk_get (risk est) p)"

text \<open>
  A per-frame track record, the tracker's dictionary for one entity in one frame. A key
  that may be absent (or hold \<^verbatim>\<open>None\<close>) is an option; the key \<^verbatim>\<open>"risk"\<close> is the field
  \<open>trk_risk\<close> and the key \<^verbatim>\<open>"name"\<close> the field \<open>trk_name\<close>.
\<close>

type_synonym bbox = "real list"

record track =
  bbox :: bbox
  speed :: "real option"
  distance :: "real option"
  trk_risk :: "np_float option"
  team :: "int option"
  has_ball :: bool
  trk_name :: "string option"

type_synonym player_track = "(pid \<times> track) list"

datatype error = ZeroDivisionError | KeyError | IndexError

text \<open>The body of the loop of \<^verbatim>\<open>update_metrics\<close> for one entity. \<^verbatim>\<open>frame_idx % self.window\<close>
  raises when the window is 0.\<close>

definition update_track :: "nat \<Rightarrow> estimator \<Rightarrow> pid \<Rightarrow> track \<Rightarrow> error + (estimator \<times> track)" where
  "update_track frame_idx est p trk =
     (case speed trk of
        None \<Rightarrow> Inr (est, trk)
      | Some spd \<Rightarrow>
          let spd_mps = spd / 3.6;
              h = history est p @ [spd_mps];
              h' = (if length h > window est then py_slice_from (- int (window est)) h else h);
              est1 = est\<lparr>history := (history est)(p := h')\<rparr>
          in if window est = 0 then Inl ZeroDivisionError
             else
               let est2 = (if frame_idx mod window est = 0 \<or> frame_idx = 0
                           then est1\<lparr>risk := dict_set p (compute_fatigue est1 p) (risk est1)\<rparr>
                           else est1);
                   (r, d) = risk_get (risk est2) p
               in Inr (est2\<lparr>risk := d\<rparr>, trk\<lparr>trk_risk := Some r\<rparr>))"

fun update_metrics :: "nat \<Rightarrow> estimator \<Rightarrow> player_track \<Rightarrow> error + (estimator \<times> player_track)" where
  "update_metrics frame_idx est [] = Inr (est, [])"
| "update_metrics frame_idx est ((p, trk) # tracks) =
     (case update_track frame_idx est p trk of
        Inl e \<Rightarrow> Inl e
      | Inr (est1, trk1) \<Rightarrow>
          (case update_metrics frame_idx est1 tracks of
             Inl e \<Rightarrow> Inl e
           | Inr (est2, tracks1) \<Rightarrow> Inr (est2, (p, trk1) # tracks1)))"

text \<open>A caller's successive calls of \<^verbatim>\<open>update_metrics\<close>, each with its frame index and
  track set, on the one estimator.\<close>

fun update_metrics_calls :: "estimator \<Rightarrow> (nat \<times> player_track) list \<Rightarrow> error + estimator" where
  "update_metrics_calls est [] = Inr est"
| "update_metrics_calls est ((frame_idx, tracks) # calls) =
     (case update_metrics frame_idx est tracks of
        Inl e \<Rightarrow> Inl e
      | Inr (est1, tracks1) \<Rightarrow> update_metrics_calls est1 calls)"

text \<open>The samples a track set, and a sequence of calls, offer for one entity, oldest
  first, in metres per second.\<close>

definition track_samples :: "pid \<Rightarrow> player_track \<Rightarrow> real list" where
  "track_samples p tracks =
     concat (map (\<lambda>(q, trk). case speed trk of
                                None \<Rightarrow> []
                              | Some spd \<Rightarrow> if q = p then [spd / 3.6] else [])
                 tracks)"

definition samples_of :: "pid \<Rightarrow> (nat \<times> player_track) list \<Rightarrow> real list" where
  "samples_of p calls = concat (map (\<lambda>(frame_idx, tracks). track_samples p tracks) calls)"

text \<open>The most recent \<open>n\<close> elements of a list, in their order (all of them when there
  are fewer).\<close>

definition most_recent :: "nat \<Rightarrow> 'a list \<Rightarrow> 'a list" where
  "most_recent n xs = drop (length xs - n) xs"

section \<open>The frame loop of the pipeline: possession\<close>

text \<open>An entry of \<^verbatim>\<open>team_ball_control\<close>: the string \<^verbatim>\<open>"none"\<close> or a team label.\<close>

datatype label = NoneLabel | Team int

text \<open>\<^verbatim>\<open>"none" if f_idx == 0 else team_ball_control[-1]\<close>\<close>

definition carry_forward :: "nat \<Rightarrow> label list \<Rightarrow> error + label" where
  "carry_forward f_idx team_ball_control =
     (if f_idx = 0 then Inr NoneLabel
      else if team_ball_control = [] then Inl IndexError
      else Inr (last team_ball_control))"

text \<open>
  One frame of the loop after its \<^verbatim>\<open>update_metrics\<close> call: the frame's records as
  left behind and the label appended. The ball detections of a frame are a dictionary
  from track ids to boxes, read under the key 1. The possession collaborator
  \<^verbatim>\<open>assign_ball_to_player\<close> is a parameter; it answers \<open>-1\<close> for no entity.
\<close>

definition possession_step ::
  "(player_track \<Rightarrow> bbox \<Rightarrow> pid) \<Rightarrow> nat \<Rightarrow> (int \<times> bbox) list \<Rightarrow> label list \<Rightarrow> player_track
     \<Rightarrow> error + (player_track \<times> label)" where
  "possession_step assign_ball_to_player f_idx ball team_ball_control player_track =
     (if ball = [] then
        (case carry_forward f_idx team_ball_control of
           Inl e \<Rightarrow> Inl e
         | Inr l \<Rightarrow> Inr (player_track, l))
      else
        (case map_of ball 1 of
           None \<Rightarrow> Inl KeyError
         | Some ball_bbox \<Rightarrow>
             let owner_pid = assign_ball_to_player player_track ball_bbox
             in if owner_pid \<noteq> - 1 then
                  (case map_of player_track owner_pid of
                     None \<Rightarrow> Inl KeyError
                   | Some trk \<Rightarrow>
                       (case team trk of
                          None \<Rightarrow> Inl KeyError
                        | Some tm \<Rightarrow>
                            Inr (dict_set owner_pid (trk\<lparr>has_ball := True\<rparr>) player_track,
                                 Team tm)))
                else
                  (case carry_forward f_idx team_ball_control of
                     Inl e \<Rightarrow> Inl e
                   | Inr l \<Rightarrow> Inr (player_track, l))))"

text \<open>\<^verbatim>\<open>tracks["ball"][f_idx]\<close>\<close>

definition ball_at :: "(int \<times> bbox) list list \<Rightarrow> nat \<Rightarrow> error + (int \<times> bbox) list" where
  "ball_at balls f_idx = (if f_idx < length balls then Inr (balls ! f_idx) else Inl IndexError)"

text \<open>The loop over \<^verbatim>\<open>enumerate(tracks["players"])\<close>, from frame \<open>f_idx\<close> on: the
  estimator, the frames' records and \<^verbatim>\<open>team_ball_control\<close> at the end.\<close>

fun possession_loop ::
  "(player_track \<Rightarrow> bbox \<Rightarrow> pid) \<Rightarrow> (int \<times> bbox) list list \<Rightarrow> nat \<Rightarrow> estimator \<Rightarrow> label list
     \<Rightarrow> player_track list \<Rightarrow> error + (estimator \<times> player_track list \<times> label list)" where
  "possession_loop assign balls f_idx est tbc [] = Inr (est, [], tbc)"
| "possession_loop assign balls f_idx est tbc (player_track # frames) =
     (case update_metrics f_idx est player_track of
        Inl e \<Rightarrow> Inl e
      | Inr (est1, pt1) \<Rightarrow>
          (case ball_at balls f_idx of
             Inl e \<Rightarrow> Inl e
           | Inr ball \<Rightarrow>
               (case possession_step assign f_idx ball tbc pt1 of
                  Inl e \<Rightarrow> Inl e
                | Inr (pt2, l) \<Rightarrow>
                    (case possession_loop assign balls (Suc f_idx) est1 (tbc @ [l]) frames of
                       Inl e \<Rightarrow> Inl e
                     | Inr (est2, frames1, tbc1) \<Rightarrow> Inr (est2, pt2 # frames1, tbc1)))))"

section \<open>The summary extractor\<close>

text \<open>Python's \<^verbatim>\<open>round(x, n)\<close>: to the nearest multiple of \<open>10\<^sup>-\<^sup>n\<close>, a tie to the even
  one; an infinity or NaN is returned as it is.\<close>

definition round_half_even :: "real \<Rightarrow> int" where
  "round_half_even y =
     (let f = \<lfloor>y\<rfloor>; d = y - of_int f
      in if d < 1 / 2 then f else if d > 1 / 2 then f + 1 else if even f then f else f + 1)"

definition py_round :: "real \<Rightarrow> nat \<Rightarrow> real" where
  "py_round x n = of_int (round_half_even (x * 10 ^ n)) / 10 ^ n"

fun np_round :: "np_float \<Rightarrow> nat \<Rightarrow> np_float" where
  "np_round (Finite x) n = Finite (py_round x n)"
| "np_round x n = x"

text \<open>\<^verbatim>\<open>str(pid)\<close>\<close>

fun str_nat :: "nat \<Rightarrow> string" where
  "str_nat n = (if n < 10 then [''0123456789'' ! n]
                else str_nat (n div 10) @ [''0123456789'' ! (n mod 10)])"

declare str_nat.simps [simp del]

definition str_int :: "int \<Rightarrow> string" where
  "str_int i = (if i < 0 then ''-'' @ str_nat (nat (- i)) else str_nat (nat i))"

text \<open>
  The backward walk for one entity, on the frames already reversed: the first frame
  that has the entity with a speed gives the snapshot. A record is a non-empty
  dictionary, so \<^verbatim>\<open>if trk\<close> asks only whether the entity is in the frame.
  \<^verbatim>\<open>trk["distance"]\<close> raises when the key is missing.
\<close>

fun walk_back :: "pid \<Rightarrow> player_track list \<Rightarrow> error + (real \<times> real \<times> np_float)" where
  "walk_back p [] = Inr (0, 0, Finite 0)"
| "walk_back p (frame # earlier) =
     (case map_of frame p of
        None \<Rightarrow> walk_back p earlier
      | Some trk \<Rightarrow>
          (case speed trk of
             None \<Rightarrow> walk_back p earlier
           | Some spd \<Rightarrow>
               (case distance trk of
                  None \<Rightarrow> Inl KeyError
                | Some dst \<Rightarrow>
                    Inr (spd, dst, case trk_risk trk of None \<Rightarrow> Finite 0 | Some r \<Rightarrow> r))))"

text \<open>The test of the walk, \<^verbatim>\<open>trk and trk.get("speed") is not None\<close>: the entity is in
  the frame and has a speed there.\<close>

definition has_speed :: "pid \<Rightarrow> player_track \<Rightarrow> bool" where
  "has_speed p frame = (case map_of frame p of None \<Rightarrow> False | Some trk \<Rightarrow> speed trk \<noteq> None)"

definition snapshot :: "pid \<Rightarrow> player_track list \<Rightarrow> error + (real \<times> real \<times> np_float)" where
  "snapshot p frames = walk_back p (rev frames)"

text \<open>\<^verbatim>\<open>tracks["players"][0].get(pid, {}).get("name", f"P{pid}")\<close>\<close>

definition player_name :: "pid \<Rightarrow> player_track list \<Rightarrow> error + string" where
  "player_name p frames =
     (case frames of
        [] \<Rightarrow> Inl IndexError
      | frame0 # _ \<Rightarrow>
          Inr (case map_of frame0 p of
                 None \<Rightarrow> ''P'' @ str_int p
               | Some trk \<Rightarrow> (case trk_name trk of None \<Rightarrow> ''P'' @ str_int p | Some n \<Rightarrow> n)))"

record player_summary =
  name :: string
  speed_kmh :: real
  distance_m :: real
  risk_pct :: np_float

definition summary_row :: "pid \<Rightarrow> player_track list \<Rightarrow> error + player_summary" where
  "summary_row p frames =
     (case snapshot p frames of
        Inl e \<Rightarrow> Inl e
      | Inr (spd, dst, rsk) \<Rightarrow>
          (case player_name p frames of
             Inl e \<Rightarrow> Inl e
           | Inr n \<Rightarrow>
               Inr \<lparr>name = n, speed_kmh = py_round spd 2, distance_m = py_round dst 2,
                    risk_pct = np_round rsk 1\<rparr>))"

text \<open>The loop over \<^verbatim>\<open>risk_est.risk.keys()\<close> that fills \<^verbatim>\<open>summary\<close>.\<close>

fun fill_summary ::
  "pid list \<Rightarrow> player_track list \<Rightarrow> (string \<times> player_summary) list
     \<Rightarrow> error + (string \<times> player_summary) list" where
  "fill_summary [] frames summary = Inr summary"
| "fill_summary (p # ps) frames summary =
     (case summary_row p frames of
        Inl e \<Rightarrow> Inl e
      | Inr row \<Rightarrow> fill_summary ps frames (dict_set (str_int p) row summary))"

definition stats_summary :: "estimator \<Rightarrow> player_track list \<Rightarrow> error + (string \<times> player_summary) list" where
  "stats_summary risk_est frames = fill_summary (map fst (risk risk_est)) frames []"

section \<open>The scorer in double precision\<close>








section \<open>Arithmetic of the scorer\<close>

lemma np_add_zero_left: "np_add (Finite 0) x = x"
  by (cases x) simp_all

lemma weighted_score_unfold:
  "weighted_score m =
     np_add (np_add (np_add (np_add (np_mul (m Speed_drop) (Finite 0.30))
                                    (np_mul (m Sprint_count) (Finite 0.25)))
                            (np_mul (m Accel_events) (Finite 0.15)))
                    (np_mul (m Posture_deg) (Finite 0.20)))
            (np_mul (m Stride_reduction) (Finite 0.10))"
  by (simp add: weighted_score_def METRIC_WEIGHTS_def np_add_zero_left)

lemma weighted_score_NaN: "m Speed_drop = NaN \<Longrightarrow> weighted_score m = NaN"
  by (simp add: weighted_score_unfold)

lemma logistic_risk_Finite:
  "logistic_risk (Finite s) = Finite (100 / (1 + exp (- 10 * (s - 0.5))))"
proof -
  have "1 + exp (- 10 * (s - 0.5)) \<noteq> 0"
    using exp_gt_zero [of "- 10 * (s - 0.5)"] by linarith
  then show ?thesis
    by (simp add: logistic_risk_def np_sub_def)
qed

lemma logistic_risk_NaN: "logistic_risk NaN = NaN"
  by (simp add: logistic_risk_def np_sub_def)

lemma np_clip_unit:
  "np_clip x 0 1 = NaN \<or> (\<exists>c. np_clip x 0 1 = Finite c \<and> 0 \<le> c \<and> c \<le> 1)"
  by (cases x) auto

lemma sprint_norm_unit: "\<exists>c. sprint_norm speeds = Finite c \<and> 0 \<le> c \<and> c \<le> 1"
  by (simp add: sprint_norm_def Let_def)

lemma accel_norm_unit: "\<exists>c. accel_norm f speeds = Finite c \<and> 0 \<le> c \<and> c \<le> 1"
  by (simp add: accel_norm_def Let_def)

lemma recent_slice_nonempty:
  assumes "speeds \<noteq> []"
  shows "py_slice_from ((- int w) div 2) speeds \<noteq> []"
proof -
  define d where "d = (- int w) div 2"
  have "d \<le> 0"
    unfolding d_def by (simp add: div_int_pos_iff)
  have len: "0 < length speeds"
    using assms by simp
  have "py_slice_from d speeds \<noteq> []"
  proof (cases "d < 0")
    case True
    with len have "nat (int (length speeds) + d) < length speeds"
      by linarith
    with True show ?thesis
      by (simp add: py_slice_from_def)
  next
    case False
    with \<open>d \<le> 0\<close> have "d = 0" by simp
    with assms show ?thesis
      by (simp add: py_slice_from_def)
  qed
  then show ?thesis
    unfolding d_def .
qed

lemma percentile_finite: "speeds \<noteq> [] \<Longrightarrow> \<exists>b. np_percentile90 speeds = Finite b"
  by (simp add: np_percentile90_def Let_def)

lemma speed_drop_unit:
  assumes "speeds \<noteq> []" "np_percentile90 speeds \<noteq> Finite 0"
  shows "\<exists>c. speed_drop_metric w speeds = Finite c \<and> 0 \<le> c \<and> c \<le> 1"
proof -
  obtain b where b: "np_percentile90 speeds = Finite b"
    using percentile_finite [OF assms(1)] by blast
  with assms(2) have "b \<noteq> 0" by simp
  obtain r where r: "np_mean (py_slice_from ((- int w) div 2) speeds) = Finite r"
    using recent_slice_nonempty [OF assms(1)] by (simp add: np_mean_def)
  show ?thesis
    using b r \<open>b \<noteq> 0\<close> by (simp add: speed_drop_metric_def np_sub_def)
qed

lemma speed_drop_cases:
  "speed_drop_metric w speeds = NaN \<or> (\<exists>c. speed_drop_metric w speeds = Finite c \<and> 0 \<le> c \<and> c \<le> 1)"
  unfolding speed_drop_metric_def Let_def by (rule np_clip_unit)


lemma weighted_score_Finite:
  assumes "m Speed_drop = Finite a" "m Sprint_count = Finite b" "m Accel_events = Finite c"
    "m Posture_deg = Finite d" "m Stride_reduction = Finite e"
  shows "weighted_score m = Finite (0.30 * a + 0.25 * b + 0.15 * c + 0.20 * d + 0.10 * e)"
  using assms by (simp add: weighted_score_unfold mult.commute)

lemma logistic_risk_bounds:
  fixes s :: real
  assumes "0 \<le> s" "s \<le> 1"
  shows "100 / (1 + exp 5) \<le> 100 / (1 + exp (- 10 * (s - 0.5)))"
    and "100 / (1 + exp (- 10 * (s - 0.5))) \<le> 100 / (1 + exp (- 5))"
    and "0 < 100 / (1 + exp (- 10 * (s - 0.5)))"
    and "100 / (1 + exp (- 10 * (s - 0.5))) < 100"
proof -
  let ?E = "exp (- 10 * (s - 0.5))"
  have pos: "0 < ?E" by (rule exp_gt_zero)
  have up: "?E \<le> exp 5" using assms by simp
  have lo: "exp (- 5) \<le> ?E" using assms by simp
  have p5: "0 < exp (- 5 :: real)" by (rule exp_gt_zero)
  show "100 / (1 + exp 5) \<le> 100 / (1 + ?E)"
    using pos up by (intro frac_le) (simp_all add: add_pos_pos)
  show "100 / (1 + ?E) \<le> 100 / (1 + exp (- 5))"
    using lo p5 by (intro frac_le) (simp_all add: add_pos_pos)
  show "0 < 100 / (1 + ?E)"
    using pos by (simp add: add_pos_pos)
  have "1 < 1 + ?E"
    using pos by linarith
  then have "100 / (1 + ?E) < 100 / 1"
    by (intro divide_strict_left_mono) (simp_all add: add_pos_pos)
  then show "100 / (1 + ?E) < 100"
    by simp
qed


section \<open>Insufficient history\<close>

text \<open>
  C5. An entity whose History Window holds fewer than 5 samples gets the risk 0.0, a
  value and not a failure; an entity of a fresh estimator, for which nothing was ever
  recorded, is such an entity.
\<close>

theorem C5_insufficient_history_zero:
  "(length (history est p) < 5 \<longrightarrow> compute_fatigue est p = Finite 0)
   \<and> compute_fatigue (init_estimator f) p = Finite 0"
  by (simp add: compute_fatigue_def fatigue_of_speeds_def init_estimator_def)

theorem C5_insufficient_history_zero_witness:
  "length (history ((init_estimator 24)\<lparr>history := (\<lambda>_. [1, 2, 3, 4])\<rparr>) 7) < 5
   \<and> compute_fatigue ((init_estimator 24)\<lparr>history := (\<lambda>_. [1, 2, 3, 4])\<rparr>) 7 = Finite 0"
  using C5_insufficient_history_zero
    [of "(init_estimator 24)\<lparr>history := (\<lambda>_. [1, 2, 3, 4])\<rparr>" 7 24]
  by simp

section \<open>The zero baseline\<close>

text \<open>
  C2 asks for a guard on the division by the baseline. There is none: for an entity that
  stood still, with the five samples 0, 0, 0, 0, 0 in its history, the 90th-percentile
  baseline is 0, the quotient \<open>(0 - 0) / 0\<close> is NaN, \<^verbatim>\<open>np.clip\<close> leaves NaN as it is, and
  \<^verbatim>\<open>_compute_fatigue\<close> returns NaN instead of a risk. So at frame 720, for an entity with four
  samples 0 and a fifth one arriving, \<^verbatim>\<open>update_metrics\<close> stores NaN as the Risk Value and
  writes it into the record.
\<close>

theorem C2_zero_baseline_unguarded:
  "np_percentile90 [0, 0, 0, 0, 0] = Finite 0
   \<and> speed_drop_metric 720 [0, 0, 0, 0, 0] = NaN
   \<and> compute_fatigue ((init_estimator 24)\<lparr>history := (\<lambda>_. [0, 0, 0, 0, 0])\<rparr>) 1 = NaN
   \<and> update_track 720 ((init_estimator 24)\<lparr>history := (\<lambda>_. [0, 0, 0, 0])\<rparr>) 1
         \<lparr>bbox = [], speed = Some 0, distance = Some 0, trk_risk = None, team = None,
            has_ball = False, trk_name = None\<rparr>
       = Inr ((init_estimator 24)\<lparr>history := (\<lambda>_. [0, 0, 0, 0])(1 := [0, 0, 0, 0, 0]),
                                  risk := [(1, NaN)]\<rparr>,
              \<lparr>bbox = [], speed = Some 0, distance = Some 0, trk_risk = Some NaN, team = None,
                 has_ball = False, trk_name = None\<rparr>)"
  by (simp add: update_track_def risk_get_def compute_fatigue_def init_estimator_def
      WINDOW_SEC_def fatigue_of_speeds_def logistic_risk_def weighted_score_unfold
      speed_drop_metric_def np_percentile90_def np_mean_def py_slice_from_def np_sub_def)

section \<open>The scorer\<close>

text \<open>
  C6. For a history of at least 5 samples the risk is \<open>100 / (1 + exp (-10 * (score - 0.5)))\<close>,
  where \<open>score\<close> is the sum of the five sub-metrics weighted 0.30, 0.25, 0.15, 0.20 and
  0.10 (posture and stride being the constant 0); when the speed-drop metric is NaN the
  same arithmetic gives NaN. The weights sum to 1, and a score of 0.5 gives the risk 50.
\<close>

theorem C6_weighted_sum_logistic:
  "(5 \<le> length speeds \<longrightarrow> speed_drop_metric w speeds = Finite sd \<longrightarrow>
      sprint_norm speeds = Finite sp \<longrightarrow> accel_norm f speeds = Finite ac \<longrightarrow>
      fatigue_of_speeds f w speeds =
        Finite (100 / (1 + exp (- 10 *
          ((0.30 * sd + 0.25 * sp + 0.15 * ac + 0.20 * 0 + 0.10 * 0) - 0.5)))))
   \<and> (5 \<le> length speeds \<longrightarrow> speed_drop_metric w speeds = NaN \<longrightarrow>
        fatigue_of_speeds f w speeds = NaN)
   \<and> sum_list (map snd METRIC_WEIGHTS) = 1
   \<and> logistic_risk (Finite 0.5) = Finite 50"
proof (intro conjI impI)
  assume "5 \<le> length speeds" "speed_drop_metric w speeds = Finite sd"
    "sprint_norm speeds = Finite sp" "accel_norm f speeds = Finite ac"
  then show "fatigue_of_speeds f w speeds =
        Finite (100 / (1 + exp (- 10 *
          ((0.30 * sd + 0.25 * sp + 0.15 * ac + 0.20 * 0 + 0.10 * 0) - 0.5))))"
    by (simp add: fatigue_of_speeds_def logistic_risk_Finite
        weighted_score_Finite [where a = sd and b = sp and c = ac and d = 0 and e = 0])
next
  assume "5 \<le> length speeds" "speed_drop_metric w speeds = NaN"
  then show "fatigue_of_speeds f w speeds = NaN"
    by (simp add: fatigue_of_speeds_def weighted_score_NaN logistic_risk_NaN)
next
  show "sum_list (map snd METRIC_WEIGHTS) = 1"
    by (simp add: METRIC_WEIGHTS_def)
next
  show "logistic_risk (Finite 0.5) = Finite 50"
    by (simp add: logistic_risk_Finite)
qed

theorem C6_weighted_sum_logistic_witness:
  "fatigue_of_speeds 24 720 [2, 2, 2, 2, 2, 2] = Finite (100 / (1 + exp 5))
   \<and> fatigue_of_speeds 24 720 [0, 0, 0, 0, 0] = NaN"
proof
  have sd: "speed_drop_metric 720 [2, 2, 2, 2, 2, 2] = Finite 0"
    by (simp add: speed_drop_metric_def np_percentile90_def np_mean_def py_slice_from_def
        np_sub_def)
  have sp: "sprint_norm [2, 2, 2, 2, 2, 2] = Finite 0"
    by (simp add: sprint_norm_def SPRINT_SPEED_def)
  have ac: "accel_norm 24 [2, 2, 2, 2, 2, 2] = Finite 0"
    by (simp add: accel_norm_def ACCEL_THRESHOLD_def)
  show "fatigue_of_speeds 24 720 [2, 2, 2, 2, 2, 2] = Finite (100 / (1 + exp 5))"
    using C6_weighted_sum_logistic [of "[2, 2, 2, 2, 2, 2]" 720 0 0 24 0] sd sp ac
    by simp
next
  have "speed_drop_metric 720 [0, 0, 0, 0, 0] = NaN"
    by (simp add: speed_drop_metric_def np_percentile90_def np_mean_def py_slice_from_def
        np_sub_def)
  then show "fatigue_of_speeds 24 720 [0, 0, 0, 0, 0] = NaN"
    using C6_weighted_sum_logistic [of "[0, 0, 0, 0, 0]" 720 0 0 24 0]
    by simp
qed

text \<open>
  C10. For a history of at least 5 samples with a non-zero baseline the risk is a number
  between \<open>100 / (1 + e\<^sup>5)\<close>, the risk of the score 0, and \<open>100 / (1 + e\<^sup>-\<^sup>5)\<close>, the risk of
  the score 1; it lies strictly between 0 and 100. No history of at least 5 samples is
  given the risk 0.0, which so marks insufficient history only.
\<close>

theorem C10_computed_risk_bounds:
  "(5 \<le> length speeds \<longrightarrow> np_percentile90 speeds \<noteq> Finite 0 \<longrightarrow>
      (\<exists>r. fatigue_of_speeds f w speeds = Finite r
         \<and> 100 / (1 + exp 5) \<le> r \<and> r \<le> 100 / (1 + exp (- 5)) \<and> 0 < r \<and> r < 100))
   \<and> (5 \<le> length speeds \<longrightarrow> fatigue_of_speeds f w speeds \<noteq> Finite 0)
   \<and> logistic_risk (weighted_score (\<lambda>_. Finite 0)) = Finite (100 / (1 + exp 5))
   \<and> logistic_risk (weighted_score (\<lambda>_. Finite 1)) = Finite (100 / (1 + exp (- 5)))"
proof (intro conjI impI)
  obtain sp where sp: "sprint_norm speeds = Finite sp" "0 \<le> sp" "sp \<le> 1"
    using sprint_norm_unit by blast
  obtain ac where ac: "accel_norm f speeds = Finite ac" "0 \<le> ac" "ac \<le> 1"
    using accel_norm_unit by blast
  have fin: "\<exists>r. fatigue_of_speeds f w speeds = Finite r
         \<and> 100 / (1 + exp 5) \<le> r \<and> r \<le> 100 / (1 + exp (- 5)) \<and> 0 < r \<and> r < 100"
    if len: "5 \<le> length speeds" and sd: "speed_drop_metric w speeds = Finite sd"
      "0 \<le> sd" "sd \<le> 1" for sd
  proof -
    define s where "s = 0.30 * sd + 0.25 * sp + 0.15 * ac"
    have w: "weighted_score (fatigue_metrics f w speeds) = Finite s"
      using sd(1) sp(1) ac(1)
      by (simp add: s_def weighted_score_Finite [where a = sd and b = sp and c = ac and d = 0 and e = 0])
    have "0 \<le> s" "s \<le> 1"
      using sd sp ac by (simp_all add: s_def)
    from logistic_risk_bounds [OF this] len w show ?thesis
      by (simp add: fatigue_of_speeds_def logistic_risk_Finite)
  qed
  {
    assume len: "5 \<le> length speeds" and base: "np_percentile90 speeds \<noteq> Finite 0"
    from len have "speeds \<noteq> []" by auto
    from speed_drop_unit [OF this base] fin [OF len]
    show "\<exists>r. fatigue_of_speeds f w speeds = Finite r
         \<and> 100 / (1 + exp 5) \<le> r \<and> r \<le> 100 / (1 + exp (- 5)) \<and> 0 < r \<and> r < 100"
      by blast
  }
  {
    assume len: "5 \<le> length speeds"
    show "fatigue_of_speeds f w speeds \<noteq> Finite 0"
    proof (cases "speed_drop_metric w speeds = NaN")
      case True
      with len show ?thesis
        by (simp add: fatigue_of_speeds_def weighted_score_NaN logistic_risk_NaN)
    next
      case False
      with speed_drop_cases [of w speeds] fin [OF len] show ?thesis
        by force
    qed
  }
  show "logistic_risk (weighted_score (\<lambda>_. Finite 0)) = Finite (100 / (1 + exp 5))"
    by (simp add: weighted_score_unfold logistic_risk_Finite)
  show "logistic_risk (weighted_score (\<lambda>_. Finite 1)) = Finite (100 / (1 + exp (- 5)))"
    by (simp add: weighted_score_unfold logistic_risk_Finite)
qed

theorem C10_computed_risk_bounds_witness:
  "np_percentile90 [9, 8, 7, 6, 5, 4, 3, 2, 1] \<noteq> Finite 0
   \<and> (\<exists>r. fatigue_of_speeds 24 720 [9, 8, 7, 6, 5, 4, 3, 2, 1] = Finite r
         \<and> 100 / (1 + exp 5) \<le> r \<and> r \<le> 100 / (1 + exp (- 5)) \<and> 0 < r \<and> r < 100)
   \<and> fatigue_of_speeds 24 720 [9, 8, 7, 6, 5, 4, 3, 2, 1] \<noteq> Finite 0"
proof -
  have base: "np_percentile90 [9, 8, 7, 6, 5, 4, 3, 2, 1] \<noteq> Finite 0"
    by (simp add: np_percentile90_def)
  with C10_computed_risk_bounds [of "[9, 8, 7, 6, 5, 4, 3, 2, 1]" 24 720]
  show ?thesis by simp
qed

section \<open>Monotonicity of the scorer in double precision\<close>







































section \<open>Lemmas on the estimator\<close>

lemma most_recent_length: "length (most_recent n xs) = min n (length xs)"
  by (auto simp: most_recent_def)

lemma most_recent_append:
  "most_recent n (most_recent n xs @ ys) = most_recent n (xs @ ys)"
proof (cases "length xs \<le> n")
  case True
  then show ?thesis by (simp add: most_recent_def)
next
  case False
  then have "length ys + (length xs - n) = length xs + length ys - n"
    by simp
  with False show ?thesis
    by (simp add: most_recent_def)
qed

lemma trim_is_most_recent:
  assumes "0 < w"
  shows "(if length h > w then py_slice_from (- int w) h else h) = most_recent w h"
proof (cases "length h > w")
  case True
  then have "nat (int (length h) - int w) = length h - w" by simp
  with True assms show ?thesis
    by (simp add: py_slice_from_def most_recent_def)
next
  case False
  then show ?thesis by (simp add: most_recent_def)
qed


lemma map_of_dict_set: "map_of (dict_set k v d) = (map_of d)(k \<mapsto> v)"
  by (induction d) (auto simp: fun_eq_iff)

lemma stored_risk_lookup:
  "stored_risk est p = (case map_of (risk est) p of None \<Rightarrow> Finite 0 | Some r \<Rightarrow> r)"
  by (simp add: stored_risk_def risk_get_def split: option.splits)

lemma stored_risk_after_get:
  "stored_risk (est\<lparr>risk := snd (risk_get (risk est) p)\<rparr>) q = stored_risk est q"
  by (auto simp: stored_risk_lookup risk_get_def map_add_def split: option.splits)

lemma stored_risk_after_set:
  "stored_risk (est\<lparr>risk := dict_set p v (risk est)\<rparr>) q = (if q = p then v else stored_risk est q)"
  by (simp add: stored_risk_lookup map_of_dict_set)

lemma compute_fatigue_cong:
  "fps a = fps b \<Longrightarrow> window a = window b \<Longrightarrow> history a p = history b p
     \<Longrightarrow> compute_fatigue a p = compute_fatigue b p"
  by (simp add: compute_fatigue_def)

lemma update_track_None: "speed trk = None \<Longrightarrow> update_track f est p trk = Inr (est, trk)"
  by (simp add: update_track_def)

lemma update_track_window_zero:
  "speed trk = Some spd \<Longrightarrow> window est = 0 \<Longrightarrow> update_track f est p trk = Inl ZeroDivisionError"
  by (simp add: update_track_def Let_def)

lemma update_track_Some:
  assumes "speed trk = Some spd" "0 < window est"
  shows "\<exists>est'. update_track f est p trk = Inr (est', trk\<lparr>trk_risk := Some (stored_risk est' p)\<rparr>)
           \<and> fps est' = fps est \<and> window est' = window est
           \<and> history est' = (history est)(p := most_recent (window est) (history est p @ [spd / 3.6]))
           \<and> (\<forall>q. stored_risk est' q =
                 (if q = p \<and> f mod window est = 0 then compute_fatigue est' p
                  else stored_risk est q))"
proof -
  define x where "x = spd / 3.6"
  define h where "h = most_recent (window est) (history est p @ [x])"
  define est1 where "est1 = est\<lparr>history := (history est)(p := h)\<rparr>"
  define est2 where "est2 = (if f mod window est = 0
       then est1\<lparr>risk := dict_set p (compute_fatigue est1 p) (risk est1)\<rparr> else est1)"
  define est' where "est' = est2\<lparr>risk := snd (risk_get (risk est2) p)\<rparr>"
  have trim: "(if length (history est p @ [x]) > window est
               then py_slice_from (- int (window est)) (history est p @ [x])
               else history est p @ [x]) = h"
    unfolding h_def by (rule trim_is_most_recent [OF assms(2)])
  have zero: "(f mod window est = 0 \<or> f = 0) = (f mod window est = 0)"
    by auto
  have run: "update_track f est p trk
               = Inr (est', trk\<lparr>trk_risk := Some (fst (risk_get (risk est2) p))\<rparr>)"
    unfolding update_track_def assms(1) option.case x_def [symmetric] Let_def trim
    using assms(2) by (simp add: zero est'_def est2_def est1_def split_beta)
  have same: "fps est' = fps est" "window est' = window est"
    "history est' = (history est)(p := h)"
    by (simp_all add: est'_def est2_def est1_def)
  have cf: "compute_fatigue est1 p = compute_fatigue est' p"
    by (rule compute_fatigue_cong) (simp_all add: same est1_def)
  have r: "stored_risk est' q =
             (if q = p \<and> f mod window est = 0 then compute_fatigue est' p else stored_risk est q)" for q
  proof -
    have "stored_risk est' q = stored_risk est2 q"
      unfolding est'_def by (rule stored_risk_after_get)
    also have "\<dots> = (if q = p \<and> f mod window est = 0 then compute_fatigue est1 p
                      else stored_risk est1 q)"
      by (simp add: est2_def stored_risk_after_set)
    also have "stored_risk est1 q = stored_risk est q"
      by (simp add: est1_def stored_risk_lookup)
    finally show ?thesis
      by (simp add: cf)
  qed
  have "fst (risk_get (risk est2) p) = stored_risk est' p"
    using stored_risk_after_get [of est2 p p] by (simp add: est'_def stored_risk_def)
  with run same r show ?thesis
    unfolding h_def x_def by auto
qed


lemma update_track_cases:
  assumes "update_track f est p trk = Inr (est', trk')"
  shows "(speed trk = None \<and> est' = est \<and> trk' = trk)
    \<or> (\<exists>spd. speed trk = Some spd \<and> 0 < window est
          \<and> trk' = trk\<lparr>trk_risk := Some (stored_risk est' p)\<rparr>
          \<and> fps est' = fps est \<and> window est' = window est
          \<and> history est' = (history est)(p := most_recent (window est) (history est p @ [spd / 3.6]))
          \<and> (\<forall>q. stored_risk est' q =
                (if q = p \<and> f mod window est = 0 then compute_fatigue est' p
                 else stored_risk est q)))"
proof (cases "speed trk")
  case None
  with assms show ?thesis
    by (simp add: update_track_None)
next
  case (Some spd)
  show ?thesis
  proof (cases "window est = 0")
    case True
    with Some assms show ?thesis
      by (simp add: update_track_window_zero)
  next
    case False
    then have "0 < window est" by simp
    from update_track_Some [OF Some this, of f p] assms Some \<open>0 < window est\<close>
    show ?thesis by auto
  qed
qed

lemma update_track_total:
  assumes "0 < window est"
  shows "\<exists>est' trk'. update_track f est p trk = Inr (est', trk')"
proof (cases "speed trk")
  case None
  then show ?thesis by (simp add: update_track_None)
next
  case (Some spd)
  from update_track_Some [OF Some assms, of f p] show ?thesis by blast
qed

lemma update_track_frame:
  assumes "update_track f est p trk = Inr (est', trk')"
  shows "fps est' = fps est" "window est' = window est"
    "q \<noteq> p \<Longrightarrow> history est' q = history est q"
    "q \<noteq> p \<Longrightarrow> stored_risk est' q = stored_risk est q"
  using update_track_cases [OF assms] by auto

lemma update_metrics_total:
  "0 < window est \<Longrightarrow> \<exists>est' tracks'. update_metrics f est tracks = Inr (est', tracks')"
proof (induction tracks arbitrary: est)
  case Nil
  show ?case by simp
next
  case (Cons a tracks)
  obtain p trk where a: "a = (p, trk)" by (cases a)
  obtain est1 trk1 where 1: "update_track f est p trk = Inr (est1, trk1)"
    using update_track_total [OF Cons.prems] by blast
  have "0 < window est1"
    using update_track_frame(2) [OF 1] Cons.prems by simp
  from Cons.IH [OF this] obtain est2 tracks2
    where "update_metrics f est1 tracks = Inr (est2, tracks2)" by blast
  with 1 a show ?case by simp
qed

lemma update_metrics_Cons:
  assumes "update_metrics f est ((p, trk) # tracks) = Inr (est', tracks')"
  obtains est1 trk1 tracks1 where "update_track f est p trk = Inr (est1, trk1)"
    "update_metrics f est1 tracks = Inr (est', tracks1)" "tracks' = (p, trk1) # tracks1"
  using assms by (auto split: sum.splits prod.splits)

lemma update_metrics_frame:
  assumes "update_metrics f est tracks = Inr (est', tracks')"
  shows "fps est' = fps est \<and> window est' = window est \<and> map fst tracks' = map fst tracks
    \<and> (q \<notin> fst ` set tracks \<longrightarrow> history est' q = history est q \<and> stored_risk est' q = stored_risk est q)"
  using assms
proof (induction tracks arbitrary: est tracks')
  case Nil
  then show ?case by simp
next
  case (Cons a tracks)
  obtain p trk where a: "a = (p, trk)" by (cases a)
  from Cons.prems obtain est1 trk1 tracks1 where
    1: "update_track f est p trk = Inr (est1, trk1)"
    and 2: "update_metrics f est1 tracks = Inr (est', tracks1)"
    and 3: "tracks' = (p, trk1) # tracks1"
    unfolding a by (rule update_metrics_Cons)
  from Cons.IH [OF 2] update_track_frame [OF 1] a 3 show ?case
    by auto
qed


lemma update_metrics_entity:
  assumes "update_metrics f est tracks = Inr (est', tracks')"
    and "distinct (map fst tracks)" and "(p, trk) \<in> set tracks"
  shows "case speed trk of
           None \<Rightarrow> map_of tracks' p = Some trk \<and> history est' p = history est p
                    \<and> stored_risk est' p = stored_risk est p
         | Some spd \<Rightarrow>
             map_of tracks' p = Some (trk\<lparr>trk_risk := Some (stored_risk est' p)\<rparr>)
             \<and> history est' p = most_recent (window est) (history est p @ [spd / 3.6])
             \<and> stored_risk est' p =
                 (if f mod window est = 0 then compute_fatigue est' p else stored_risk est p)"
  using assms
proof (induction tracks arbitrary: est tracks')
  case Nil
  then show ?case by simp
next
  case (Cons a tracks)
  obtain q t where a: "a = (q, t)" by (cases a)
  from Cons.prems(1) obtain est1 t1 tracks1 where
    1: "update_track f est q t = Inr (est1, t1)"
    and 2: "update_metrics f est1 tracks = Inr (est', tracks1)"
    and 3: "tracks' = (q, t1) # tracks1"
    unfolding a by (rule update_metrics_Cons)
  from Cons.prems(2) a have q: "q \<notin> fst ` set tracks" and d: "distinct (map fst tracks)"
    by simp_all
  note rest = update_metrics_frame [OF 2, of q]
  show ?case
  proof (cases "(p, trk) = (q, t)")
    case True
    then have pq: "p = q" "trk = t" by simp_all
    from rest q have keep: "history est' q = history est1 q" "stored_risk est' q = stored_risk est1 q"
      "fps est' = fps est1" "window est' = window est1"
      by simp_all
    have cf: "compute_fatigue est' q = compute_fatigue est1 q"
      by (rule compute_fatigue_cong) (simp_all add: keep)
    from update_track_cases [OF 1] show ?thesis
      unfolding pq 3 by (auto simp: keep cf)
  next
    case False
    with Cons.prems(3) a have mem: "(p, trk) \<in> set tracks" by auto
    with q have ne: "p \<noteq> q" by force
    note first = update_track_frame [OF 1]
    from Cons.IH [OF 2 d mem] ne show ?thesis
      unfolding 3 by (simp add: first split: option.splits)
  qed
qed

section \<open>What a frame writes\<close>

text \<open>
  C1 fails as stated: \<^verbatim>\<open>update_metrics\<close> skips an entity without a speed sample by
  \<^verbatim>\<open>continue\<close>, before the recomputation and before the risk write. At frame 0, on a
  fresh estimator, the record of such an entity comes back without a risk field and the
  estimator is unchanged (nothing was recomputed or stored for the entity), although
  the stored Risk Value to write would have been 0.0.
\<close>

theorem C1_missing_speed_skips_entity_counterexample:
  "update_metrics 0 (init_estimator 24)
     [(1, \<lparr>bbox = [], speed = None, distance = None, trk_risk = None, team = None,
            has_ball = False, trk_name = None\<rparr>)]
   = Inr (init_estimator 24,
       [(1, \<lparr>bbox = [], speed = None, distance = None, trk_risk = None, team = None,
              has_ball = False, trk_name = None\<rparr>)])
   \<and> stored_risk (init_estimator 24) 1 = Finite 0"
  by (simp add: update_track_def stored_risk_def risk_get_def init_estimator_def)

text \<open>
  C1, amended. With a positive window, \<^verbatim>\<open>update_metrics\<close> returns, keeping the entities
  of the track set (a dictionary: its keys are distinct). An entity with a speed sample
  has the sample appended to its History Window (trimmed to the window), its Risk Value
  recomputed when the frame is on schedule, and the Risk Value stored afterwards written
  into the risk field of its record. An entity without a speed sample is skipped: its
  record, its History Window and its stored Risk Value are left as they were.
\<close>

theorem C1_risk_written_when_speed_present:
  assumes "0 < window est" and "distinct (map fst tracks)"
  shows "\<exists>est' tracks'. update_metrics f est tracks = Inr (est', tracks')
     \<and> map fst tracks' = map fst tracks
     \<and> (\<forall>(p, trk) \<in> set tracks.
           case speed trk of
             None \<Rightarrow> map_of tracks' p = Some trk \<and> history est' p = history est p
                      \<and> stored_risk est' p = stored_risk est p
           | Some spd \<Rightarrow>
               map_of tracks' p = Some (trk\<lparr>trk_risk := Some (stored_risk est' p)\<rparr>)
               \<and> history est' p = most_recent (window est) (history est p @ [spd / 3.6])
               \<and> stored_risk est' p =
                   (if f mod window est = 0 then compute_fatigue est' p else stored_risk est p))"
proof -
  obtain est' tracks' where run: "update_metrics f est tracks = Inr (est', tracks')"
    using update_metrics_total [OF assms(1)] by blast
  have "map fst tracks' = map fst tracks"
    using update_metrics_frame [OF run] by simp
  moreover have "\<forall>(p, trk) \<in> set tracks.
           case speed trk of
             None \<Rightarrow> map_of tracks' p = Some trk \<and> history est' p = history est p
                      \<and> stored_risk est' p = stored_risk est p
           | Some spd \<Rightarrow>
               map_of tracks' p = Some (trk\<lparr>trk_risk := Some (stored_risk est' p)\<rparr>)
               \<and> history est' p = most_recent (window est) (history est p @ [spd / 3.6])
               \<and> stored_risk est' p =
                   (if f mod window est = 0 then compute_fatigue est' p else stored_risk est p)"
    using update_metrics_entity [OF run assms(2)] by blast
  ultimately show ?thesis
    using run by blast
qed


theorem C1_risk_written_when_speed_present_witness:
  "0 < window (init_estimator 24)
   \<and> distinct (map fst
        [(1 :: pid, \<lparr>bbox = [], speed = Some 18, distance = Some 3, trk_risk = None, team = None,
               has_ball = False, trk_name = None\<rparr>),
         (2, \<lparr>bbox = [], speed = None, distance = None, trk_risk = None, team = None,
               has_ball = False, trk_name = None\<rparr>)])
   \<and> (\<exists>est' tracks'. update_metrics 0 (init_estimator 24)
        [(1, \<lparr>bbox = [], speed = Some 18, distance = Some 3, trk_risk = None, team = None,
               has_ball = False, trk_name = None\<rparr>),
         (2, \<lparr>bbox = [], speed = None, distance = None, trk_risk = None, team = None,
               has_ball = False, trk_name = None\<rparr>)] = Inr (est', tracks')
        \<and> map fst tracks' = [1, 2]
        \<and> map_of tracks' 1 = Some \<lparr>bbox = [], speed = Some 18, distance = Some 3,
               trk_risk = Some (stored_risk est' 1), team = None, has_ball = False,
               trk_name = None\<rparr>
        \<and> map_of tracks' 2 = Some \<lparr>bbox = [], speed = None, distance = None, trk_risk = None,
               team = None, has_ball = False, trk_name = None\<rparr>)"
proof -
  have w: "0 < window (init_estimator 24)"
    by (simp add: init_estimator_def WINDOW_SEC_def)
  have d: "distinct (map fst
        [(1 :: pid, \<lparr>bbox = [], speed = Some 18, distance = Some 3, trk_risk = None, team = None,
               has_ball = False, trk_name = None\<rparr>),
         (2, \<lparr>bbox = [], speed = None, distance = None, trk_risk = None, team = None,
               has_ball = False, trk_name = None\<rparr>)])"
    by simp
  from C1_risk_written_when_speed_present [OF w d, of 0] w d show ?thesis
    by auto
qed

section \<open>The recompute cadence\<close>

lemma update_metrics_offbeat:
  assumes "update_metrics f est tracks = Inr (est', tracks')" and "f mod window est \<noteq> 0"
  shows "tracks' = map (\<lambda>(p, trk). (p, case speed trk of
                                          None \<Rightarrow> trk
                                        | Some spd \<Rightarrow> trk\<lparr>trk_risk := Some (stored_risk est p)\<rparr>))
                       tracks
         \<and> (\<forall>p. stored_risk est' p = stored_risk est p)"
  using assms
proof (induction tracks arbitrary: est tracks')
  case Nil
  then show ?case by simp
next
  case (Cons a tracks)
  obtain q t where a: "a = (q, t)" by (cases a)
  from Cons.prems(1) obtain est1 t1 tracks1 where
    1: "update_track f est q t = Inr (est1, t1)"
    and 2: "update_metrics f est1 tracks = Inr (est', tracks1)"
    and 3: "tracks' = (q, t1) # tracks1"
    unfolding a by (rule update_metrics_Cons)
  from update_track_cases [OF 1] Cons.prems(2)
  have s1: "stored_risk est1 = stored_risk est"
    and w1: "window est1 = window est"
    and t1: "t1 = (case speed t of None \<Rightarrow> t
                   | Some spd \<Rightarrow> t\<lparr>trk_risk := Some (stored_risk est q)\<rparr>)"
    by (auto simp: fun_eq_iff)
  from Cons.IH [OF 2, unfolded s1 w1] Cons.prems(2) t1 show ?case
    unfolding 3 a by simp
qed

lemma update_metrics_calls_total:
  "0 < window est \<Longrightarrow> \<exists>est'. update_metrics_calls est calls = Inr est'"
proof (induction calls arbitrary: est)
  case Nil
  show ?case by simp
next
  case (Cons c calls)
  obtain f tracks where c: "c = (f, tracks)" by (cases c)
  obtain est1 tracks1 where 1: "update_metrics f est tracks = Inr (est1, tracks1)"
    using update_metrics_total [OF Cons.prems] by blast
  have "0 < window est1"
    using update_metrics_frame [OF 1] Cons.prems by simp
  from Cons.IH [OF this] 1 c show ?case
    by simp
qed

lemma update_metrics_calls_offbeat:
  assumes "update_metrics_calls est calls = Inr est'"
    and "\<forall>(g, t) \<in> set calls. g mod window est \<noteq> 0"
  shows "\<forall>p. stored_risk est' p = stored_risk est p"
  using assms
proof (induction calls arbitrary: est)
  case Nil
  then show ?case by simp
next
  case (Cons c calls)
  obtain f tracks where c: "c = (f, tracks)" by (cases c)
  from Cons.prems(1) obtain est1 tracks1 where
    1: "update_metrics f est tracks = Inr (est1, tracks1)"
    and 2: "update_metrics_calls est1 calls = Inr est'"
    unfolding c by (auto split: sum.splits)
  from Cons.prems(2) c have f: "f mod window est \<noteq> 0" by simp
  have w1: "window est1 = window est"
    using update_metrics_frame [OF 1] by simp
  from Cons.prems(2) w1 have "\<forall>(g, t) \<in> set calls. g mod window est1 \<noteq> 0"
    by simp
  from Cons.IH [OF 2 this] update_metrics_offbeat [OF 1 f] show ?case
    by simp
qed

lemma held_since_recompute:
  assumes "0 < window est" and "f mod window est = 0"
    and "distinct (map fst tracks)" and "(p, trk) \<in> set tracks" and "speed trk = Some spd"
    and "\<forall>(g, t) \<in> set calls. g mod window est \<noteq> 0"
  shows "\<exists>est1 tracks1 est2. update_metrics f est tracks = Inr (est1, tracks1)
           \<and> update_metrics_calls est1 calls = Inr est2
           \<and> stored_risk est2 p = compute_fatigue est1 p"
proof -
  obtain est1 tracks1 where 1: "update_metrics f est tracks = Inr (est1, tracks1)"
    using update_metrics_total [OF assms(1)] by blast
  have w1: "window est1 = window est"
    using update_metrics_frame [OF 1] by simp
  then have "0 < window est1"
    using assms(1) by simp
  then obtain est2 where 2: "update_metrics_calls est1 calls = Inr est2"
    using update_metrics_calls_total by blast
  from assms(6) w1 have "\<forall>(g, t) \<in> set calls. g mod window est1 \<noteq> 0"
    by simp
  from update_metrics_calls_offbeat [OF 2 this]
  have "stored_risk est2 p = stored_risk est1 p"
    by simp
  also have "\<dots> = compute_fatigue est1 p"
    using update_metrics_entity [OF 1 assms(3,4)] assms(2,5) by simp
  finally show ?thesis
    using 1 2 by blast
qed



text \<open>
  C3. On a frame whose index is not a multiple of the window, \<^verbatim>\<open>update_metrics\<close> leaves
  the stored Risk Value of every entity as it was, and that value is what it writes into
  the record of each entity it does not skip; the same holds along any sequence of such
  frames. So the stored Risk Value changes only on frames with
  \<open>frame_index mod window_size = 0\<close>, frame 0 among them, and after such a frame
  that recomputed an entity's risk, the frames off schedule that follow hold the
  recomputed value.
\<close>

theorem C3_risk_changes_only_on_schedule:
  assumes "0 < window est"
  shows "(f mod window est \<noteq> 0 \<longrightarrow>
           (\<exists>est'. update_metrics f est tracks =
                Inr (est', map (\<lambda>(p, trk). (p, case speed trk of
                                None \<Rightarrow> trk
                              | Some spd \<Rightarrow> trk\<lparr>trk_risk := Some (stored_risk est p)\<rparr>)) tracks)
              \<and> (\<forall>p. stored_risk est' p = stored_risk est p)))
       \<and> ((\<forall>(g, t) \<in> set calls. g mod window est \<noteq> 0) \<longrightarrow>
           (\<exists>est'. update_metrics_calls est calls = Inr est'
              \<and> (\<forall>p. stored_risk est' p = stored_risk est p)))
       \<and> (f mod window est = 0 \<longrightarrow> distinct (map fst tracks) \<longrightarrow> (p, trk) \<in> set tracks \<longrightarrow>
           speed trk \<noteq> None \<longrightarrow> (\<forall>(g, t) \<in> set calls. g mod window est \<noteq> 0) \<longrightarrow>
           (\<exists>est1 tracks1 est2. update_metrics f est tracks = Inr (est1, tracks1)
              \<and> update_metrics_calls est1 calls = Inr est2
              \<and> stored_risk est2 p = compute_fatigue est1 p))"
proof (intro conjI impI)
  assume f: "f mod window est \<noteq> 0"
  obtain est' tracks' where run: "update_metrics f est tracks = Inr (est', tracks')"
    using update_metrics_total [OF assms] by blast
  from update_metrics_offbeat [OF run f] run
  show "\<exists>est'. update_metrics f est tracks =
                Inr (est', map (\<lambda>(p, trk). (p, case speed trk of
                                None \<Rightarrow> trk
                              | Some spd \<Rightarrow> trk\<lparr>trk_risk := Some (stored_risk est p)\<rparr>)) tracks)
              \<and> (\<forall>p. stored_risk est' p = stored_risk est p)"
    by blast
next
  assume g: "\<forall>(g, t) \<in> set calls. g mod window est \<noteq> 0"
  obtain est' where run: "update_metrics_calls est calls = Inr est'"
    using update_metrics_calls_total [OF assms] by blast
  from update_metrics_calls_offbeat [OF run g] run
  show "\<exists>est'. update_metrics_calls est calls = Inr est'
              \<and> (\<forall>p. stored_risk est' p = stored_risk est p)"
    by blast
next
  assume a: "f mod window est = 0" "distinct (map fst tracks)" "(p, trk) \<in> set tracks"
    "speed trk \<noteq> None" "\<forall>(g, t) \<in> set calls. g mod window est \<noteq> 0"
  from a(4) obtain spd where s: "speed trk = Some spd"
    by auto
  show "\<exists>est1 tracks1 est2. update_metrics f est tracks = Inr (est1, tracks1)
              \<and> update_metrics_calls est1 calls = Inr est2
              \<and> stored_risk est2 p = compute_fatigue est1 p"
    by (rule held_since_recompute [OF assms a(1) a(2) a(3) s a(5)])
qed

theorem C3_risk_changes_only_on_schedule_witness:
  "0 < window ((init_estimator 24)\<lparr>risk := [(1, Finite 42)]\<rparr>)
   \<and> 5 mod window ((init_estimator 24)\<lparr>risk := [(1, Finite 42)]\<rparr>) \<noteq> 0
   \<and> (\<exists>est'. update_metrics 5 ((init_estimator 24)\<lparr>risk := [(1, Finite 42)]\<rparr>)
          [(1, \<lparr>bbox = [], speed = Some 18, distance = Some 3, trk_risk = None, team = None,
                 has_ball = False, trk_name = None\<rparr>)]
        = Inr (est',
          [(1, \<lparr>bbox = [], speed = Some 18, distance = Some 3, trk_risk = Some (Finite 42),
                 team = None, has_ball = False, trk_name = None\<rparr>)])
        \<and> stored_risk est' 1 = Finite 42)
   \<and> (\<exists>est'. update_metrics_calls ((init_estimator 24)\<lparr>risk := [(1, Finite 42)]\<rparr>)
          [(5, [(1, \<lparr>bbox = [], speed = Some 18, distance = Some 3, trk_risk = None,
                       team = None, has_ball = False, trk_name = None\<rparr>)]),
           (6, [])] = Inr est'
        \<and> stored_risk est' 1 = Finite 42)
   \<and> 720 mod window ((init_estimator 24)\<lparr>risk := [(1, Finite 42)]\<rparr>) = 0
   \<and> (\<exists>est1 tracks1 est2.
          update_metrics 720 ((init_estimator 24)\<lparr>risk := [(1, Finite 42)]\<rparr>)
            [(1, \<lparr>bbox = [], speed = Some 18, distance = Some 3, trk_risk = None, team = None,
                   has_ball = False, trk_name = None\<rparr>)] = Inr (est1, tracks1)
        \<and> update_metrics_calls est1
            [(5, [(1, \<lparr>bbox = [], speed = Some 18, distance = Some 3, trk_risk = None,
                         team = None, has_ball = False, trk_name = None\<rparr>)]),
             (6, [])] = Inr est2
        \<and> stored_risk est2 1 = compute_fatigue est1 1)"
proof -
  let ?est = "(init_estimator 24)\<lparr>risk := [(1, Finite 42)]\<rparr>"
  have w: "0 < window ?est"
    by (simp add: init_estimator_def WINDOW_SEC_def)
  have f: "5 mod window ?est \<noteq> 0" "6 mod window ?est \<noteq> 0"
    by (simp_all add: init_estimator_def WINDOW_SEC_def)
  have z: "720 mod window ?est = 0"
    by (simp add: init_estimator_def WINDOW_SEC_def)
  have s: "stored_risk ?est 1 = Finite 42"
    by (simp add: stored_risk_def risk_get_def)
  let ?trk = "\<lparr>bbox = [], speed = Some 18, distance = Some 3, trk_risk = None, team = None,
                 has_ball = False, trk_name = None\<rparr>"
  let ?calls = "[(5, [(1, ?trk)]), (6, [])] :: (nat \<times> player_track) list"
  note sched = C3_risk_changes_only_on_schedule [OF w, of 5 "[(1, ?trk)]" ?calls]
  note resched = C3_risk_changes_only_on_schedule [OF w, of 720 "[(1, ?trk)]" ?calls 1 ?trk]
  have g: "\<forall>(g, t) \<in> set ?calls. g mod window ?est \<noteq> 0"
    using f by simp
  have out: "map (\<lambda>(p, trk). (p, case speed trk of
                                None \<Rightarrow> trk
                              | Some spd \<Rightarrow> trk\<lparr>trk_risk := Some (stored_risk ?est p)\<rparr>))
               [(1, ?trk)]
             = [(1, \<lparr>bbox = [], speed = Some 18, distance = Some 3, trk_risk = Some (Finite 42),
                 team = None, has_ball = False, trk_name = None\<rparr>)]"
    by (simp add: s)
  from sched f(1) obtain est1 where
    "update_metrics 5 ?est [(1, ?trk)] =
       Inr (est1, map (\<lambda>(p, trk). (p, case speed trk of
                                None \<Rightarrow> trk
                              | Some spd \<Rightarrow> trk\<lparr>trk_risk := Some (stored_risk ?est p)\<rparr>))
               [(1, ?trk)])"
    "stored_risk est1 1 = stored_risk ?est 1"
    by blast
  then have A: "\<exists>est'. update_metrics 5 ?est [(1, ?trk)]
        = Inr (est',
          [(1, \<lparr>bbox = [], speed = Some 18, distance = Some 3, trk_risk = Some (Finite 42),
                 team = None, has_ball = False, trk_name = None\<rparr>)])
        \<and> stored_risk est' 1 = Finite 42"
    unfolding out s by blast
  from sched g obtain est2 where
    "update_metrics_calls ?est ?calls = Inr est2" "stored_risk est2 1 = stored_risk ?est 1"
    by blast
  then have B: "\<exists>est'. update_metrics_calls ?est ?calls = Inr est'
        \<and> stored_risk est' 1 = Finite 42"
    unfolding s by blast
  have d: "distinct (map fst [(1 :: pid, ?trk)])" "(1, ?trk) \<in> set [(1, ?trk)]"
    "speed ?trk \<noteq> None"
    by simp_all
  note third = conjunct2 [OF conjunct2 [OF resched]]
  from third [rule_format, OF z d bspec [OF g]]
  have C: "\<exists>est1 tracks1 est2. update_metrics 720 ?est [(1, ?trk)] = Inr (est1, tracks1)
        \<and> update_metrics_calls est1 ?calls = Inr est2
        \<and> stored_risk est2 1 = compute_fatigue est1 1" .
  from w f(1) A B z C show ?thesis
    by blast
qed

section \<open>The History Window\<close>

lemma most_recent_id: "length xs \<le> n \<Longrightarrow> most_recent n xs = xs"
  by (simp add: most_recent_def)

lemma update_track_history:
  assumes "update_track f est q t = Inr (est', t')" and "length (history est p) \<le> window est"
  shows "history est' p = most_recent (window est) (history est p @ track_samples p [(q, t)])"
proof -
  from update_track_cases [OF assms(1)] show ?thesis
  proof (elim disjE exE conjE)
    assume "speed t = None" "est' = est"
    with assms(2) show ?thesis
      by (simp add: track_samples_def most_recent_id)
  next
    fix spd
    assume s: "speed t = Some spd"
      and h: "history est' = (history est)(q := most_recent (window est) (history est q @ [spd / 3.6]))"
    show ?thesis
    proof (cases "q = p")
      case True
      with s h show ?thesis
        unfolding track_samples_def by simp
    next
      case False
      with s h assms(2) show ?thesis
        unfolding track_samples_def by (simp add: most_recent_id)
    qed
  qed
qed

lemma update_metrics_history:
  assumes "update_metrics f est tracks = Inr (est', tracks')"
    and "length (history est p) \<le> window est"
  shows "history est' p = most_recent (window est) (history est p @ track_samples p tracks)"
  using assms
proof (induction tracks arbitrary: est tracks')
  case Nil
  then show ?case
    by (simp add: track_samples_def most_recent_id)
next
  case (Cons a tracks)
  obtain q t where a: "a = (q, t)" by (cases a)
  from Cons.prems(1) obtain est1 t1 tracks1 where
    1: "update_track f est q t = Inr (est1, t1)"
    and 2: "update_metrics f est1 tracks = Inr (est', tracks1)"
    unfolding a by (rule update_metrics_Cons)
  have w1: "window est1 = window est"
    using update_track_frame(2) [OF 1] .
  have h1: "history est1 p = most_recent (window est) (history est p @ track_samples p [(q, t)])"
    using update_track_history [OF 1 Cons.prems(2)] .
  then have "length (history est1 p) \<le> window est1"
    by (simp add: most_recent_length w1)
  from Cons.IH [OF 2 this]
  have "history est' p = most_recent (window est)
          (most_recent (window est) (history est p @ track_samples p [(q, t)])
             @ track_samples p tracks)"
    by (simp only: w1 h1)
  also have "\<dots> = most_recent (window est)
          ((history est p @ track_samples p [(q, t)]) @ track_samples p tracks)"
    by (rule most_recent_append)
  also have "(history est p @ track_samples p [(q, t)]) @ track_samples p tracks
             = history est p @ track_samples p (a # tracks)"
    unfolding a track_samples_def by simp
  finally show ?case .
qed

lemma update_metrics_calls_history:
  assumes "update_metrics_calls est calls = Inr est'"
    and "length (history est p) \<le> window est"
  shows "history est' p = most_recent (window est) (history est p @ samples_of p calls)
         \<and> window est' = window est"
  using assms
proof (induction calls arbitrary: est)
  case Nil
  then show ?case
    by (simp add: samples_of_def most_recent_id)
next
  case (Cons c calls)
  obtain f tracks where c: "c = (f, tracks)" by (cases c)
  from Cons.prems(1) obtain est1 tracks1 where
    1: "update_metrics f est tracks = Inr (est1, tracks1)"
    and 2: "update_metrics_calls est1 calls = Inr est'"
    unfolding c by (auto split: sum.splits)
  have w1: "window est1 = window est"
    using update_metrics_frame [OF 1] by simp
  have h1: "history est1 p = most_recent (window est) (history est p @ track_samples p tracks)"
    using update_metrics_history [OF 1 Cons.prems(2)] .
  then have "length (history est1 p) \<le> window est1"
    by (simp add: most_recent_length w1)
  from Cons.IH [OF 2 this]
  have ih: "history est' p = most_recent (window est)
          (most_recent (window est) (history est p @ track_samples p tracks)
             @ samples_of p calls)"
    and w': "window est' = window est"
    by (simp_all only: w1 h1)
  note ih
  also have "most_recent (window est)
          (most_recent (window est) (history est p @ track_samples p tracks)
             @ samples_of p calls) = most_recent (window est)
          ((history est p @ track_samples p tracks) @ samples_of p calls)"
    by (rule most_recent_append)
  also have "(history est p @ track_samples p tracks) @ samples_of p calls
             = history est p @ samples_of p (c # calls)"
    unfolding c samples_of_def by simp
  finally show ?case
    using w' by simp
qed

text \<open>
  C4. Along any sequence of calls, starting from a History Window within the bound, the
  History Window of an entity is the most recent \<open>window_size\<close> of the samples recorded
  for it (those it held, then those the calls appended), in their chronological order,
  and never longer than \<open>window_size\<close>.
\<close>

theorem C4_history_window_fifo:
  assumes "0 < window est" and "length (history est p) \<le> window est"
  shows "\<exists>est'. update_metrics_calls est calls = Inr est'
           \<and> history est' p = most_recent (window est) (history est p @ samples_of p calls)
           \<and> length (history est' p) \<le> window est
           \<and> window est' = window est"
proof -
  obtain est' where run: "update_metrics_calls est calls = Inr est'"
    using update_metrics_calls_total [OF assms(1)] by blast
  from update_metrics_calls_history [OF run assms(2)] run show ?thesis
    by (simp add: most_recent_length)
qed


theorem C4_history_window_fifo_witness:
  "0 < window ((init_estimator 1)\<lparr>history := (\<lambda>_. replicate 30 1)\<rparr>)
   \<and> length (history ((init_estimator 1)\<lparr>history := (\<lambda>_. replicate 30 1)\<rparr>) 7)
       \<le> window ((init_estimator 1)\<lparr>history := (\<lambda>_. replicate 30 1)\<rparr>)
   \<and> (\<exists>est'. update_metrics_calls ((init_estimator 1)\<lparr>history := (\<lambda>_. replicate 30 1)\<rparr>)
          [(31, [(7, \<lparr>bbox = [], speed = Some 18, distance = Some 3, trk_risk = None,
                        team = None, has_ball = False, trk_name = None\<rparr>)]),
           (32, [(7, \<lparr>bbox = [], speed = None, distance = None, trk_risk = None,
                        team = None, has_ball = False, trk_name = None\<rparr>)])] = Inr est'
        \<and> history est' 7 = replicate 29 1 @ [5]
        \<and> length (history est' 7) \<le> 30)"
proof -
  let ?est = "(init_estimator 1)\<lparr>history := (\<lambda>_. replicate 30 1)\<rparr>"
  let ?calls = "[(31, [(7, \<lparr>bbox = [], speed = Some 18, distance = Some 3, trk_risk = None,
                        team = None, has_ball = False, trk_name = None\<rparr>)]),
           (32, [(7, \<lparr>bbox = [], speed = None, distance = None, trk_risk = None,
                        team = None, has_ball = False, trk_name = None\<rparr>)])]
      :: (nat \<times> player_track) list"
  have w: "window ?est = 30"
    by (simp add: init_estimator_def WINDOW_SEC_def)
  have pos: "0 < window ?est"
    unfolding w by simp
  have len: "length (history ?est 7) \<le> window ?est"
    unfolding w by simp
  have smp: "samples_of 7 ?calls = [5]"
    by (simp add: samples_of_def track_samples_def)
  have rep: "replicate 30 (1 :: real) = 1 # replicate 29 1"
    by (simp add: replicate_Suc [symmetric] del: replicate_Suc)
  have "most_recent 30 (replicate 30 (1 :: real) @ [5]) = replicate 29 1 @ [5]"
    unfolding rep by (simp add: most_recent_def)
  then have mr: "most_recent (window ?est) (history ?est 7 @ samples_of 7 ?calls)
                 = replicate 29 1 @ [5]"
    unfolding w smp by simp
  from C4_history_window_fifo [OF pos len, of ?calls]
  obtain est' where run: "update_metrics_calls ?est ?calls = Inr est'"
    and h: "history est' 7 = most_recent (window ?est) (history ?est 7 @ samples_of 7 ?calls)"
    and l: "length (history est' 7) \<le> window ?est"
    by blast
  have h': "history est' 7 = replicate 29 1 @ [5]"
    using h unfolding mr .
  have l': "length (history est' 7) \<le> 30"
    using l unfolding w .
  from run h' l' pos len show ?thesis
    by blast
qed

section \<open>Possession\<close>

lemma carry_forward_Inr:
  "carry_forward f tbc = Inr l \<Longrightarrow> l = (if f = 0 then NoneLabel else last tbc) \<and> (f \<noteq> 0 \<longrightarrow> tbc \<noteq> [])"
  by (auto simp: carry_forward_def split: if_splits)

lemma possession_step_label:
  assumes "possession_step assign f ball tbc pt = Inr (pt', l)"
  shows "(ball = [] \<longrightarrow> l = (if f = 0 then NoneLabel else last tbc) \<and> (f \<noteq> 0 \<longrightarrow> tbc \<noteq> []))
    \<and> (ball \<noteq> [] \<longrightarrow> (\<exists>bb. map_of ball 1 = Some bb
          \<and> (assign pt bb = - 1 \<longrightarrow>
                l = (if f = 0 then NoneLabel else last tbc) \<and> (f \<noteq> 0 \<longrightarrow> tbc \<noteq> []))
          \<and> (assign pt bb \<noteq> - 1 \<longrightarrow>
                (\<exists>trk tm. map_of pt (assign pt bb) = Some trk \<and> team trk = Some tm
                   \<and> l = Team tm))))"
  using assms
  by (auto simp: possession_step_def Let_def split: if_splits sum.splits option.splits
      dest: carry_forward_Inr)

lemma possession_loop_Cons:
  assumes "possession_loop assign balls f est tbc (pt # frames) = Inr (est', frames', labels)"
  obtains est1 pt1 pt2 l frames1 where "update_metrics f est pt = Inr (est1, pt1)"
    "f < length balls"
    "possession_step assign f (balls ! f) tbc pt1 = Inr (pt2, l)"
    "possession_loop assign balls (Suc f) est1 (tbc @ [l]) frames = Inr (est', frames1, labels)"
    "frames' = pt2 # frames1"
  using assms
  by (auto simp: ball_at_def split: sum.splits prod.splits if_splits)

lemma possession_loop_trace:
  assumes "possession_loop assign balls f est tbc frames = Inr (est', frames', labels)"
  shows "length labels = length tbc + length frames \<and> take (length tbc) labels = tbc
    \<and> (\<forall>i < length frames. f + i < length balls
          \<and> (\<exists>est0 est1 pt1 pt2. update_metrics (f + i) est0 (frames ! i) = Inr (est1, pt1)
                \<and> possession_step assign (f + i) (balls ! (f + i))
                      (take (length tbc + i) labels) pt1
                    = Inr (pt2, labels ! (length tbc + i))))"
  using assms
proof (induction frames arbitrary: f est tbc frames')
  case Nil
  then show ?case by simp
next
  case (Cons pt frames)
  from Cons.prems obtain est1 pt1 pt2 l frames1 where
    1: "update_metrics f est pt = Inr (est1, pt1)"
    and 2: "f < length balls"
    and 3: "possession_step assign f (balls ! f) tbc pt1 = Inr (pt2, l)"
    and 4: "possession_loop assign balls (Suc f) est1 (tbc @ [l]) frames = Inr (est', frames1, labels)"
    by (rule possession_loop_Cons)
  note ih = Cons.IH [OF 4]
  from ih have len: "length labels = length tbc + length (pt # frames)"
    by simp
  from ih have tk: "take (Suc (length tbc)) labels = tbc @ [l]"
    by simp
  then have "take (length tbc) (take (Suc (length tbc)) labels) = take (length tbc) (tbc @ [l])"
    by simp
  then have tk0: "take (length tbc) labels = tbc"
    by simp
  have "take (Suc (length tbc)) labels ! length tbc = (tbc @ [l]) ! length tbc"
    using tk by simp
  then have l: "labels ! length tbc = l"
    by simp
  have step: "f + i < length balls
          \<and> (\<exists>est0 est1 pt1 pt2. update_metrics (f + i) est0 ((pt # frames) ! i) = Inr (est1, pt1)
                \<and> possession_step assign (f + i) (balls ! (f + i))
                      (take (length tbc + i) labels) pt1
                    = Inr (pt2, labels ! (length tbc + i)))"
    if i: "i < length (pt # frames)" for i
  proof (cases i)
    case 0
    with 1 2 3 tk0 l show ?thesis
      by auto
  next
    case (Suc j)
    with i have "j < length frames" by simp
    with ih Suc show ?thesis
      by simp
  qed
  from len tk0 step show ?case
    by blast
qed


text \<open>
  C9. When the frame loop returns, \<^verbatim>\<open>team_ball_control\<close> has one label per frame. For
  a frame without a ball detection, and for a frame where the possession collaborator
  assigns no entity (it answers \<open>-1\<close> on the frame's records as \<^verbatim>\<open>update_metrics\<close> left
  them), the label is that of the frame before, or \<^verbatim>\<open>"none"\<close> at frame 0. When an entity
  is assigned, the label is that entity's team.
\<close>

theorem C9_possession_carry_forward:
  assumes "possession_loop assign balls 0 est [] frames = Inr (est', frames', labels)"
  shows "length labels = length frames
    \<and> (\<forall>i < length frames. i < length balls \<and>
          (\<exists>est0 est1 pt1. update_metrics i est0 (frames ! i) = Inr (est1, pt1)
             \<and> (balls ! i = [] \<longrightarrow>
                  labels ! i = (if i = 0 then NoneLabel else labels ! (i - 1)))
             \<and> (balls ! i \<noteq> [] \<longrightarrow>
                  (\<exists>ball_bbox. map_of (balls ! i) 1 = Some ball_bbox
                     \<and> (assign pt1 ball_bbox = - 1 \<longrightarrow>
                          labels ! i = (if i = 0 then NoneLabel else labels ! (i - 1)))
                     \<and> (assign pt1 ball_bbox \<noteq> - 1 \<longrightarrow>
                          (\<exists>trk tm. map_of pt1 (assign pt1 ball_bbox) = Some trk
                             \<and> team trk = Some tm \<and> labels ! i = Team tm))))))"
proof -
  note trace = possession_loop_trace [OF assms]
  have len: "length labels = length frames"
    using trace by simp
  have frame: "\<exists>est0 est1 pt1. update_metrics i est0 (frames ! i) = Inr (est1, pt1)
             \<and> (balls ! i = [] \<longrightarrow>
                  labels ! i = (if i = 0 then NoneLabel else labels ! (i - 1)))
             \<and> (balls ! i \<noteq> [] \<longrightarrow>
                  (\<exists>ball_bbox. map_of (balls ! i) 1 = Some ball_bbox
                     \<and> (assign pt1 ball_bbox = - 1 \<longrightarrow>
                          labels ! i = (if i = 0 then NoneLabel else labels ! (i - 1)))
                     \<and> (assign pt1 ball_bbox \<noteq> - 1 \<longrightarrow>
                          (\<exists>trk tm. map_of pt1 (assign pt1 ball_bbox) = Some trk
                             \<and> team trk = Some tm \<and> labels ! i = Team tm))))"
    if i: "i < length frames" for i
  proof -
    from trace i obtain est0 est1 pt1 pt2 where
      u: "update_metrics i est0 (frames ! i) = Inr (est1, pt1)"
      and s: "possession_step assign i (balls ! i) (take i labels) pt1 = Inr (pt2, labels ! i)"
      by force
    have prev: "last (take i labels) = labels ! (i - 1)" if "i \<noteq> 0"
    proof -
      from that i len have "take i labels \<noteq> []" by auto
      then have "last (take i labels) = take i labels ! (length (take i labels) - 1)"
        by (rule last_conv_nth)
      also have "\<dots> = labels ! (i - 1)"
        using that i len by simp
      finally show ?thesis .
    qed
    from possession_step_label [OF s] prev u
    have "update_metrics i est0 (frames ! i) = Inr (est1, pt1)
             \<and> (balls ! i = [] \<longrightarrow>
                  labels ! i = (if i = 0 then NoneLabel else labels ! (i - 1)))
             \<and> (balls ! i \<noteq> [] \<longrightarrow>
                  (\<exists>ball_bbox. map_of (balls ! i) 1 = Some ball_bbox
                     \<and> (assign pt1 ball_bbox = - 1 \<longrightarrow>
                          labels ! i = (if i = 0 then NoneLabel else labels ! (i - 1)))
                     \<and> (assign pt1 ball_bbox \<noteq> - 1 \<longrightarrow>
                          (\<exists>trk tm. map_of pt1 (assign pt1 ball_bbox) = Some trk
                             \<and> team trk = Some tm \<and> labels ! i = Team tm))))"
      by (cases "i = 0") auto
    then show ?thesis
      by blast
  qed
  have "i < length balls" if "i < length frames" for i
    using trace that by simp
  with len frame show ?thesis
    by blast
qed


theorem C9_possession_carry_forward_witness:
  "possession_loop (\<lambda>player_track ball_bbox. if ball_bbox = [1] then 7 else - 1)
     [[], [(1, [1])], [(1, [0])]] 0 (init_estimator 24) []
     [[(7, \<lparr>bbox = [], speed = None, distance = None, trk_risk = None, team = Some 2,
             has_ball = False, trk_name = None\<rparr>)],
      [(7, \<lparr>bbox = [], speed = None, distance = None, trk_risk = None, team = Some 2,
             has_ball = False, trk_name = None\<rparr>)],
      [(7, \<lparr>bbox = [], speed = None, distance = None, trk_risk = None, team = Some 2,
             has_ball = False, trk_name = None\<rparr>)]]
   = Inr (init_estimator 24,
       [[(7, \<lparr>bbox = [], speed = None, distance = None, trk_risk = None, team = Some 2,
               has_ball = False, trk_name = None\<rparr>)],
        [(7, \<lparr>bbox = [], speed = None, distance = None, trk_risk = None, team = Some 2,
               has_ball = True, trk_name = None\<rparr>)],
        [(7, \<lparr>bbox = [], speed = None, distance = None, trk_risk = None, team = Some 2,
               has_ball = False, trk_name = None\<rparr>)]],
       [NoneLabel, Team 2, Team 2])
   \<and> length [NoneLabel, Team 2, Team 2] = (3 :: nat)"
proof -
  have run: "possession_loop (\<lambda>player_track ball_bbox. if ball_bbox = [1] then 7 else - 1)
     [[], [(1, [1])], [(1, [0])]] 0 (init_estimator 24) []
     [[(7, \<lparr>bbox = [], speed = None, distance = None, trk_risk = None, team = Some 2,
             has_ball = False, trk_name = None\<rparr>)],
      [(7, \<lparr>bbox = [], speed = None, distance = None, trk_risk = None, team = Some 2,
             has_ball = False, trk_name = None\<rparr>)],
      [(7, \<lparr>bbox = [], speed = None, distance = None, trk_risk = None, team = Some 2,
             has_ball = False, trk_name = None\<rparr>)]]
   = Inr (init_estimator 24,
       [[(7, \<lparr>bbox = [], speed = None, distance = None, trk_risk = None, team = Some 2,
               has_ball = False, trk_name = None\<rparr>)],
        [(7, \<lparr>bbox = [], speed = None, distance = None, trk_risk = None, team = Some 2,
               has_ball = True, trk_name = None\<rparr>)],
        [(7, \<lparr>bbox = [], speed = None, distance = None, trk_risk = None, team = Some 2,
               has_ball = False, trk_name = None\<rparr>)]],
       [NoneLabel, Team 2, Team 2])"
    by (simp add: possession_step_def ball_at_def carry_forward_def update_track_def)
  from C9_possession_carry_forward [OF run] run show ?thesis
    by simp
qed

section \<open>The summary\<close>

lemma digit_char_inj:
  "a < 10 \<Longrightarrow> b < 10 \<Longrightarrow> ''0123456789'' ! a = ''0123456789'' ! b \<Longrightarrow> a = b"
  by (subst (asm) nth_eq_iff_index_eq) simp_all

lemma digit_char_not_minus: "a < 10 \<Longrightarrow> ''0123456789'' ! a \<noteq> CHR ''-''"
proof -
  assume "a < 10"
  then have "''0123456789'' ! a \<in> set ''0123456789''"
    by (intro nth_mem) simp
  then show ?thesis by auto
qed

lemma str_nat_nonempty: "str_nat n \<noteq> []"
  by (subst str_nat.simps) simp

lemma str_nat_no_minus: "CHR ''-'' \<notin> set (str_nat n)"
proof (induction n rule: str_nat.induct)
  case (1 n)
  show ?case
  proof (cases "n < 10")
    case True
    then show ?thesis
      using digit_char_not_minus [of n] by (subst str_nat.simps) auto
  next
    case False
    have "n mod 10 < 10" by simp
    from digit_char_not_minus [OF this] 1 [OF False] False show ?thesis
      by (subst str_nat.simps) auto
  qed
qed

lemma str_nat_inj: "str_nat n = str_nat m \<Longrightarrow> n = m"
proof (induction n arbitrary: m rule: str_nat.induct)
  case (1 n)
  show ?case
  proof (cases "n < 10")
    case n: True
    then have sn: "str_nat n = [''0123456789'' ! n]"
      by (subst str_nat.simps) simp
    show ?thesis
    proof (cases "m < 10")
      case True
      then have "str_nat m = [''0123456789'' ! m]"
        by (subst str_nat.simps) simp
      with sn "1.prems" have "''0123456789'' ! n = ''0123456789'' ! m" by simp
      with n True show ?thesis by (rule digit_char_inj)
    next
      case False
      then have "str_nat m = str_nat (m div 10) @ [''0123456789'' ! (m mod 10)]"
        by (subst str_nat.simps) simp
      with sn "1.prems" str_nat_nonempty [of "m div 10"] show ?thesis
        by simp
    qed
  next
    case n: False
    then have sn: "str_nat n = str_nat (n div 10) @ [''0123456789'' ! (n mod 10)]"
      by (subst str_nat.simps) simp
    show ?thesis
    proof (cases "m < 10")
      case True
      then have "str_nat m = [''0123456789'' ! m]"
        by (subst str_nat.simps) simp
      with sn "1.prems" str_nat_nonempty [of "n div 10"] show ?thesis
        by simp
    next
      case False
      then have "str_nat m = str_nat (m div 10) @ [''0123456789'' ! (m mod 10)]"
        by (subst str_nat.simps) simp
      with sn "1.prems" have eq: "str_nat (n div 10) = str_nat (m div 10)"
        and dg: "''0123456789'' ! (n mod 10) = ''0123456789'' ! (m mod 10)"
        by simp_all
      from "1.IH" [OF n eq] have "n div 10 = m div 10" .
      moreover have "n mod 10 = m mod 10"
        using dg by (intro digit_char_inj) simp_all
      ultimately show ?thesis
        by (metis div_mult_mod_eq)
    qed
  qed
qed

lemma str_int_inj: "str_int i = str_int j \<Longrightarrow> i = j"
proof -
  assume eq: "str_int i = str_int j"
  have hd_neg: "hd (str_int k) = CHR ''-''" if "k < 0" for k
    using that by (simp add: str_int_def)
  have hd_pos: "hd (str_int k) \<noteq> CHR ''-''" if "\<not> k < 0" for k
  proof -
    have "hd (str_nat (nat k)) \<in> set (str_nat (nat k))"
      using str_nat_nonempty by (intro hd_in_set)
    with str_nat_no_minus [of "nat k"] that show ?thesis
      by (auto simp: str_int_def)
  qed
  show ?thesis
  proof (cases "i < 0")
    case True
    with hd_neg [of i] hd_pos [of j] eq have "j < 0" by metis
    with True eq have "str_nat (nat (- i)) = str_nat (nat (- j))"
      by (simp add: str_int_def)
    then have "nat (- i) = nat (- j)" by (rule str_nat_inj)
    with True \<open>j < 0\<close> show ?thesis by simp
  next
    case False
    with hd_neg [of j] hd_pos [of i] eq have "\<not> j < 0" by metis
    with False eq have "str_nat (nat i) = str_nat (nat j)"
      by (simp add: str_int_def)
    then have "nat i = nat j" by (rule str_nat_inj)
    with False \<open>\<not> j < 0\<close> show ?thesis by simp
  qed
qed


lemma snapshot_latest:
  assumes "\<forall>frame \<in> set frames. \<forall>(q, trk) \<in> set frame. speed trk \<noteq> None \<longrightarrow> distance trk \<noteq> None"
  shows "\<exists>s d r. snapshot p frames = Inr (s, d, r)
     \<and> ((\<exists>i trk. i < length frames \<and> map_of (frames ! i) p = Some trk
            \<and> speed trk = Some s \<and> distance trk = Some d
            \<and> r = (case trk_risk trk of None \<Rightarrow> Finite 0 | Some x \<Rightarrow> x)
            \<and> (\<forall>j. i < j \<and> j < length frames \<longrightarrow> \<not> has_speed p (frames ! j)))
         \<or> ((\<forall>j < length frames. \<not> has_speed p (frames ! j))
            \<and> s = 0 \<and> d = 0 \<and> r = Finite 0))"
  using assms
proof (induction frames rule: rev_induct)
  case Nil
  show ?case by (simp add: snapshot_def)
next
  case (snoc fr fs)
  show ?case
  proof (cases "has_speed p fr")
    case True
    then obtain trk s where trk: "map_of fr p = Some trk" and s: "speed trk = Some s"
      by (auto simp: has_speed_def split: option.splits)
    from trk have "(p, trk) \<in> set fr" by (rule map_of_SomeD)
    with snoc.prems s obtain d where d: "distance trk = Some d"
      by fastforce
    have run: "snapshot p (fs @ [fr])
               = Inr (s, d, case trk_risk trk of None \<Rightarrow> Finite 0 | Some x \<Rightarrow> x)"
      by (simp add: snapshot_def trk s d)
    have "length fs < length (fs @ [fr]) \<and> map_of ((fs @ [fr]) ! length fs) p = Some trk
          \<and> (\<forall>j. length fs < j \<and> j < length (fs @ [fr]) \<longrightarrow> \<not> has_speed p ((fs @ [fr]) ! j))"
      using trk by auto
    with run s d show ?thesis
      by blast
  next
    case False
    have run: "snapshot p (fs @ [fr]) = snapshot p fs"
      using False by (auto simp: snapshot_def has_speed_def split: option.splits)
    from snoc.prems have "\<forall>frame \<in> set fs. \<forall>(q, trk) \<in> set frame.
        speed trk \<noteq> None \<longrightarrow> distance trk \<noteq> None"
      by simp
    from snoc.IH [OF this] obtain s d r where sn: "snapshot p fs = Inr (s, d, r)"
      and alt: "(\<exists>i trk. i < length fs \<and> map_of (fs ! i) p = Some trk
            \<and> speed trk = Some s \<and> distance trk = Some d
            \<and> r = (case trk_risk trk of None \<Rightarrow> Finite 0 | Some x \<Rightarrow> x)
            \<and> (\<forall>j. i < j \<and> j < length fs \<longrightarrow> \<not> has_speed p (fs ! j)))
         \<or> ((\<forall>j < length fs. \<not> has_speed p (fs ! j)) \<and> s = 0 \<and> d = 0 \<and> r = Finite 0)"
      by blast
    have run': "snapshot p (fs @ [fr]) = Inr (s, d, r)"
      using run sn by simp
    have ext: "\<not> has_speed p ((fs @ [fr]) ! j)"
      if "j < length (fs @ [fr])" "j < length fs \<longrightarrow> \<not> has_speed p (fs ! j)" for j
      using that False by (cases "j < length fs") (simp_all add: nth_append)
    from alt show ?thesis
    proof
      assume "\<exists>i trk. i < length fs \<and> map_of (fs ! i) p = Some trk
            \<and> speed trk = Some s \<and> distance trk = Some d
            \<and> r = (case trk_risk trk of None \<Rightarrow> Finite 0 | Some x \<Rightarrow> x)
            \<and> (\<forall>j. i < j \<and> j < length fs \<longrightarrow> \<not> has_speed p (fs ! j))"
      then obtain i trk where i: "i < length fs" "map_of (fs ! i) p = Some trk"
        "speed trk = Some s" "distance trk = Some d"
        "r = (case trk_risk trk of None \<Rightarrow> Finite 0 | Some x \<Rightarrow> x)"
        "\<forall>j. i < j \<and> j < length fs \<longrightarrow> \<not> has_speed p (fs ! j)"
        by blast
      have "i < length (fs @ [fr])" "map_of ((fs @ [fr]) ! i) p = Some trk"
        using i(1,2) by (simp_all add: nth_append)
      moreover have "\<forall>j. i < j \<and> j < length (fs @ [fr]) \<longrightarrow> \<not> has_speed p ((fs @ [fr]) ! j)"
        using i(6) ext by blast
      ultimately show ?thesis
        using run' i(3,4,5) by blast
    next
      assume z: "(\<forall>j < length fs. \<not> has_speed p (fs ! j)) \<and> s = 0 \<and> d = 0 \<and> r = Finite 0"
      then have "\<forall>j < length (fs @ [fr]). \<not> has_speed p ((fs @ [fr]) ! j)"
        using ext by blast
      with z run' show ?thesis
        by blast
    qed
  qed
qed

lemma py_round_zero: "py_round 0 n = 0"
  by (simp add: py_round_def round_half_even_def)

lemma summary_row_latest:
  assumes "frames \<noteq> []"
    and "\<forall>frame \<in> set frames. \<forall>(q, trk) \<in> set frame. speed trk \<noteq> None \<longrightarrow> distance trk \<noteq> None"
  shows "\<exists>row. summary_row p frames = Inr row
     \<and> ((\<exists>i trk spd dst. i < length frames \<and> map_of (frames ! i) p = Some trk
            \<and> speed trk = Some spd \<and> distance trk = Some dst
            \<and> (\<forall>j. i < j \<and> j < length frames \<longrightarrow> \<not> has_speed p (frames ! j))
            \<and> speed_kmh row = py_round spd 2 \<and> distance_m row = py_round dst 2
            \<and> risk_pct row = np_round (case trk_risk trk of None \<Rightarrow> Finite 0 | Some x \<Rightarrow> x) 1)
         \<or> ((\<forall>j < length frames. \<not> has_speed p (frames ! j))
            \<and> speed_kmh row = 0 \<and> distance_m row = 0 \<and> risk_pct row = Finite 0))"
proof -
  from assms(1) obtain n where n: "player_name p frames = Inr n"
    by (cases frames) (simp_all add: player_name_def)
  from snapshot_latest [OF assms(2), of p] obtain s d r where sn: "snapshot p frames = Inr (s, d, r)"
    and alt: "(\<exists>i trk. i < length frames \<and> map_of (frames ! i) p = Some trk
            \<and> speed trk = Some s \<and> distance trk = Some d
            \<and> r = (case trk_risk trk of None \<Rightarrow> Finite 0 | Some x \<Rightarrow> x)
            \<and> (\<forall>j. i < j \<and> j < length frames \<longrightarrow> \<not> has_speed p (frames ! j)))
         \<or> ((\<forall>j < length frames. \<not> has_speed p (frames ! j))
            \<and> s = 0 \<and> d = 0 \<and> r = Finite 0)"
    by blast
  define row where "row = \<lparr>name = n, speed_kmh = py_round s 2, distance_m = py_round d 2,
                    risk_pct = np_round r 1\<rparr>"
  have run: "summary_row p frames = Inr row"
    by (simp add: summary_row_def sn n row_def)
  have f: "speed_kmh row = py_round s 2" "distance_m row = py_round d 2"
    "risk_pct row = np_round r 1"
    by (simp_all add: row_def)
  from alt show ?thesis
  proof
    assume "\<exists>i trk. i < length frames \<and> map_of (frames ! i) p = Some trk
            \<and> speed trk = Some s \<and> distance trk = Some d
            \<and> r = (case trk_risk trk of None \<Rightarrow> Finite 0 | Some x \<Rightarrow> x)
            \<and> (\<forall>j. i < j \<and> j < length frames \<longrightarrow> \<not> has_speed p (frames ! j))"
    with run f show ?thesis
      by blast
  next
    assume "(\<forall>j < length frames. \<not> has_speed p (frames ! j)) \<and> s = 0 \<and> d = 0 \<and> r = Finite 0"
    with run f show ?thesis
      by (auto simp: py_round_zero)
  qed
qed

lemma fill_summary_rows:
  assumes "\<forall>q \<in> set ps. \<exists>row. summary_row q frames = Inr row"
  shows "\<exists>summary. fill_summary ps frames acc = Inr summary
     \<and> (\<forall>q \<in> set ps. \<exists>row. summary_row q frames = Inr row
            \<and> map_of summary (str_int q) = Some row)
     \<and> (\<forall>k. k \<notin> str_int ` set ps \<longrightarrow> map_of summary k = map_of acc k)"
  using assms
proof (induction ps arbitrary: acc)
  case Nil
  show ?case by simp
next
  case (Cons p ps)
  from Cons.prems obtain row where row: "summary_row p frames = Inr row"
    by auto
  from Cons.prems have "\<forall>q \<in> set ps. \<exists>row. summary_row q frames = Inr row"
    by simp
  from Cons.IH [OF this, of "dict_set (str_int p) row acc"] obtain summary where
    run: "fill_summary ps frames (dict_set (str_int p) row acc) = Inr summary"
    and rows: "\<forall>q \<in> set ps. \<exists>row. summary_row q frames = Inr row
            \<and> map_of summary (str_int q) = Some row"
    and rest: "\<forall>k. k \<notin> str_int ` set ps \<longrightarrow>
            map_of summary k = map_of (dict_set (str_int p) row acc) k"
    by blast
  have run': "fill_summary (p # ps) frames acc = Inr summary"
    using row run by simp
  have p: "\<exists>row. summary_row p frames = Inr row \<and> map_of summary (str_int p) = Some row"
  proof (cases "p \<in> set ps")
    case True
    with rows show ?thesis by blast
  next
    case False
    then have "str_int p \<notin> str_int ` set ps"
      using str_int_inj by blast
    with rest have "map_of summary (str_int p) = map_of (dict_set (str_int p) row acc) (str_int p)"
      by blast
    with row show ?thesis
      by (simp add: map_of_dict_set)
  qed
  have "\<forall>k. k \<notin> str_int ` set (p # ps) \<longrightarrow> map_of summary k = map_of acc k"
    using rest by (simp add: map_of_dict_set)
  with run' p rows show ?case
    by auto
qed


text \<open>
  C8. On a non-empty list of frames whose records carry a distance wherever they carry a
  speed, the summary is written and has a row under \<^verbatim>\<open>str(pid)\<close> for every entity
  \<open>pid\<close> among the keys of \<^verbatim>\<open>risk_est.risk\<close>. The row's speed, distance and risk are
  those of the latest frame in which the entity has a speed (rounded to 2, 2 and 1
  decimals; the risk 0.0 when that record has none); when the entity has a speed in no
  frame, the row is there all the same and the three are 0.0.
\<close>

theorem C8_summary_latest_valid_frame:
  assumes "frames \<noteq> []"
    and "\<forall>frame \<in> set frames. \<forall>(q, trk) \<in> set frame. speed trk \<noteq> None \<longrightarrow> distance trk \<noteq> None"
    and "p \<in> fst ` set (risk risk_est)"
  shows "\<exists>summary row. stats_summary risk_est frames = Inr summary
     \<and> map_of summary (str_int p) = Some row
     \<and> ((\<exists>i trk spd dst. i < length frames \<and> map_of (frames ! i) p = Some trk
            \<and> speed trk = Some spd \<and> distance trk = Some dst
            \<and> (\<forall>j. i < j \<and> j < length frames \<longrightarrow> \<not> has_speed p (frames ! j))
            \<and> speed_kmh row = py_round spd 2 \<and> distance_m row = py_round dst 2
            \<and> risk_pct row = np_round (case trk_risk trk of None \<Rightarrow> Finite 0 | Some x \<Rightarrow> x) 1)
         \<or> ((\<forall>j < length frames. \<not> has_speed p (frames ! j))
            \<and> speed_kmh row = 0 \<and> distance_m row = 0 \<and> risk_pct row = Finite 0))"
proof -
  have "\<forall>q \<in> set (map fst (risk risk_est)). \<exists>row. summary_row q frames = Inr row"
    using summary_row_latest [OF assms(1,2)] by blast
  from fill_summary_rows [OF this, of "[]"] assms(3)
  obtain summary row where run: "stats_summary risk_est frames = Inr summary"
    and row: "summary_row p frames = Inr row" "map_of summary (str_int p) = Some row"
    unfolding stats_summary_def by auto
  from summary_row_latest [OF assms(1,2), of p] row(1)
  have "(\<exists>i trk spd dst. i < length frames \<and> map_of (frames ! i) p = Some trk
            \<and> speed trk = Some spd \<and> distance trk = Some dst
            \<and> (\<forall>j. i < j \<and> j < length frames \<longrightarrow> \<not> has_speed p (frames ! j))
            \<and> speed_kmh row = py_round spd 2 \<and> distance_m row = py_round dst 2
            \<and> risk_pct row = np_round (case trk_risk trk of None \<Rightarrow> Finite 0 | Some x \<Rightarrow> x) 1)
         \<or> ((\<forall>j < length frames. \<not> has_speed p (frames ! j))
            \<and> speed_kmh row = 0 \<and> distance_m row = 0 \<and> risk_pct row = Finite 0)"
    by auto
  with run row(2) show ?thesis
    by blast
qed

theorem C8_summary_latest_valid_frame_witness:
  "[[(1 :: pid, \<lparr>bbox = [], speed = Some 10, distance = Some 5, trk_risk = Some (Finite 10),
            team = None, has_ball = False, trk_name = None\<rparr>)],
      [(1, \<lparr>bbox = [], speed = None, distance = None, trk_risk = None, team = None,
            has_ball = False, trk_name = None\<rparr>)],
      [(1, \<lparr>bbox = [], speed = Some 20.126, distance = Some 8.5,
            trk_risk = Some (Finite 20.04), team = None, has_ball = False, trk_name = None\<rparr>)],
      [(1, \<lparr>bbox = [], speed = None, distance = Some 9, trk_risk = None, team = None,
            has_ball = False, trk_name = None\<rparr>)]] \<noteq> []
   \<and> 1 \<in> fst ` set (risk ((init_estimator 24)\<lparr>risk := [(1, Finite 20.04)]\<rparr>))
   \<and> (\<exists>summary row. stats_summary ((init_estimator 24)\<lparr>risk := [(1, Finite 20.04)]\<rparr>)
     [[(1 :: pid, \<lparr>bbox = [], speed = Some 10, distance = Some 5, trk_risk = Some (Finite 10),
            team = None, has_ball = False, trk_name = None\<rparr>)],
      [(1, \<lparr>bbox = [], speed = None, distance = None, trk_risk = None, team = None,
            has_ball = False, trk_name = None\<rparr>)],
      [(1, \<lparr>bbox = [], speed = Some 20.126, distance = Some 8.5,
            trk_risk = Some (Finite 20.04), team = None, has_ball = False, trk_name = None\<rparr>)],
      [(1, \<lparr>bbox = [], speed = None, distance = Some 9, trk_risk = None, team = None,
            has_ball = False, trk_name = None\<rparr>)]]
          = Inr summary
        \<and> map_of summary (str_int 1) = Some row)
   \<and> stats_summary ((init_estimator 24)\<lparr>risk := [(1, Finite 20.04)]\<rparr>)
     [[(1 :: pid, \<lparr>bbox = [], speed = Some 10, distance = Some 5, trk_risk = Some (Finite 10),
            team = None, has_ball = False, trk_name = None\<rparr>)],
      [(1, \<lparr>bbox = [], speed = None, distance = None, trk_risk = None, team = None,
            has_ball = False, trk_name = None\<rparr>)],
      [(1, \<lparr>bbox = [], speed = Some 20.126, distance = Some 8.5,
            trk_risk = Some (Finite 20.04), team = None, has_ball = False, trk_name = None\<rparr>)],
      [(1, \<lparr>bbox = [], speed = None, distance = Some 9, trk_risk = None, team = None,
            has_ball = False, trk_name = None\<rparr>)]]
       = Inr [(''1'', \<lparr>name = ''P1'', speed_kmh = 20.13, distance_m = 8.5,
                       risk_pct = Finite 20\<rparr>)]"
proof -
  let ?frames = "[[(1 :: pid, \<lparr>bbox = [], speed = Some 10, distance = Some 5, trk_risk = Some (Finite 10),
            team = None, has_ball = False, trk_name = None\<rparr>)],
      [(1, \<lparr>bbox = [], speed = None, distance = None, trk_risk = None, team = None,
            has_ball = False, trk_name = None\<rparr>)],
      [(1, \<lparr>bbox = [], speed = Some 20.126, distance = Some 8.5,
            trk_risk = Some (Finite 20.04), team = None, has_ball = False, trk_name = None\<rparr>)],
      [(1, \<lparr>bbox = [], speed = None, distance = Some 9, trk_risk = None, team = None,
            has_ball = False, trk_name = None\<rparr>)]] :: player_track list"
  let ?est = "(init_estimator 24)\<lparr>risk := [(1, Finite 20.04)]\<rparr>"
  have ne: "?frames \<noteq> []"
    by simp
  have wf: "\<forall>frame \<in> set ?frames. \<forall>(q, trk) \<in> set frame.
              speed trk \<noteq> None \<longrightarrow> distance trk \<noteq> None"
    by (simp del: not_None_eq)
  have key: "1 \<in> fst ` set (risk ?est)"
    by simp
  have s1: "str_int 1 = ''1''"
    by (simp add: str_int_def str_nat.simps)
  have r1: "py_round (10063 / 500) 2 = 2013 / 100" "py_round (17 / 2) 2 = 17 / 2"
    "py_round (501 / 25) (Suc 0) = 20"
    by (simp_all add: py_round_def round_half_even_def)
  have run: "stats_summary ?est ?frames
       = Inr [(''1'', \<lparr>name = ''P1'', speed_kmh = 20.13, distance_m = 8.5,
                       risk_pct = Finite 20\<rparr>)]"
    by (simp add: stats_summary_def summary_row_def snapshot_def player_name_def s1 r1)
  from C8_summary_latest_valid_frame [OF ne wf key]
  have ex: "\<exists>summary row. stats_summary ?est ?frames = Inr summary
        \<and> map_of summary (str_int 1) = Some row"
    by blast
  from ne key ex run show ?thesis
    by blast
qed

section \<open>The entities the summary enumerates\<close>

text \<open>
  \<^verbatim>\<open>update_metrics\<close> gives an entity a key in \<^verbatim>\<open>self.risk\<close> only in a frame where it has a
  speed: the entities the summary loop visits are those of the estimator it is handed,
  and in the pipeline an entity that never had a speed is not among them.
\<close>

lemma keys_dict_set: "fst ` set (dict_set k v d) = insert k (fst ` set d)"
  using arg_cong [OF map_of_dict_set [of k v d], of dom]
  by (simp add: dom_map_of_conv_image_fst)

lemma keys_risk_get: "fst ` set (snd (risk_get d p)) = insert p (fst ` set d)"
proof (cases "map_of d p")
  case None
  then show ?thesis
    by (simp add: risk_get_def)
next
  case (Some r)
  then have "p \<in> fst ` set d"
    by (metis domI dom_map_of_conv_image_fst)
  with Some show ?thesis
    by (auto simp: risk_get_def)
qed

lemma update_track_risk_keys:
  assumes "update_track f est p trk = Inr (est', trk')"
  shows "fst ` set (risk est') =
           (if speed trk = None then fst ` set (risk est) else insert p (fst ` set (risk est)))"
proof (cases "speed trk")
  case None
  with assms show ?thesis
    by (simp add: update_track_None)
next
  case (Some spd)
  with assms have "risk est' = snd (risk_get (risk est) p)
      \<or> (\<exists>v. risk est' = snd (risk_get (dict_set p v (risk est)) p))"
    by (auto simp: update_track_def Let_def split_beta split: if_splits)
  with Some show ?thesis
    by (elim disjE exE) (simp_all add: keys_risk_get keys_dict_set)
qed

lemma update_metrics_risk_keys:
  assumes "update_metrics f est tracks = Inr (est', tracks')"
  shows "fst ` set (risk est') =
           fst ` set (risk est) \<union> {p. \<exists>trk. (p, trk) \<in> set tracks \<and> speed trk \<noteq> None}"
  using assms
proof (induction tracks arbitrary: est tracks')
  case Nil
  then show ?case by simp
next
  case (Cons a tracks)
  obtain q t where a: "a = (q, t)" by (cases a)
  from Cons.prems obtain est1 t1 tracks1 where
    1: "update_track f est q t = Inr (est1, t1)"
    and 2: "update_metrics f est1 tracks = Inr (est', tracks1)"
    unfolding a by (rule update_metrics_Cons)
  from Cons.IH [OF 2] update_track_risk_keys [OF 1] show ?case
    unfolding a by (auto split: if_splits)
qed

end
